theory Spec2Isabelle
  imports Main "HOL-Library.AList" "HOL-Library.Sublist"
begin

section \<open>JavaScript values\<close>

text \<open>
  The logger of \<^verbatim>\<open>src/lib/index.ts\<close> handles payloads of type
  \<^verbatim>\<open>Record<string, unknown>\<close>, so the values it touches are modelled by a datatype of
  JavaScript values. An object is the list of its own enumerable properties; reading a
  property goes through \<open>map_of\<close>, writing one through \<open>AList.update\<close>,
  \<^verbatim>\<open>delete\<close> through \<open>AList.delete\<close> and the spread \<^verbatim>\<open>{...a, ...b}\<close> through
  \<open>AList.merge a b\<close>, in which the entries of \<open>b\<close> win. The position of a key in
  the list carries no meaning. An array carries its elements and, being an object, the
  properties assigned to it besides. An \<^verbatim>\<open>Error\<close> object carries its message and its
  (non-standard, possibly missing) stack. Numbers are restricted to integers; functions
  and symbols do not occur.
\<close>

datatype jsval =
    JUndefined
  | JNull
  | JBool bool
  | JNum int
  | JStr string
  | JArr "jsval list" "(string \<times> jsval) list"
  | JObj "(string \<times> jsval) list"
  | JError string "string option"

type_synonym jsobject = "(string \<times> jsval) list"

text \<open>Conversion to boolean, as \<^verbatim>\<open>if (v)\<close>, \<^verbatim>\<open>!v\<close> and \<^verbatim>\<open>v || w\<close> perform it.\<close>

fun truthy :: "jsval \<Rightarrow> bool" where
  "truthy JUndefined = False"
| "truthy JNull = False"
| "truthy (JBool b) = b"
| "truthy (JNum n) = (n \<noteq> 0)"
| "truthy (JStr s) = (s \<noteq> [])"
| "truthy (JArr xs ps) = True"
| "truthy (JObj fs) = True"
| "truthy (JError m st) = True"

text \<open>The values on which a property assignment throws in strict mode.\<close>

fun isPrimitive :: "jsval \<Rightarrow> bool" where
  "isPrimitive (JArr xs ps) = False"
| "isPrimitive (JObj fs) = False"
| "isPrimitive (JError m st) = False"
| "isPrimitive v = True"

text \<open>\<^verbatim>\<open>obj.k\<close> on a record: a missing key reads as \<^verbatim>\<open>undefined\<close>.\<close>

definition getField :: "jsobject \<Rightarrow> string \<Rightarrow> jsval" where
  "getField obj k = (case map_of obj k of None \<Rightarrow> JUndefined | Some v \<Rightarrow> v)"

text \<open>
  \<^verbatim>\<open>v.k\<close> on any value other than \<^verbatim>\<open>undefined\<close> and \<^verbatim>\<open>null\<close>, for the property names
  this program reads (\<^verbatim>\<open>stack\<close>, \<^verbatim>\<open>message\<close> and the request fields), none of which is
  inherited from a built-in prototype.
\<close>

fun getProp :: "jsval \<Rightarrow> string \<Rightarrow> jsval" where
  "getProp (JObj fs) k = getField fs k"
| "getProp (JArr xs ps) k = getField ps k"
| "getProp (JError m st) k =
     (if k = ''message'' then JStr m
      else if k = ''stack'' then (case st of None \<Rightarrow> JUndefined | Some s \<Rightarrow> JStr s)
      else JUndefined)"
| "getProp v k = JUndefined"

fun typeof :: "jsval \<Rightarrow> string" where
  "typeof JUndefined = ''undefined''"
| "typeof (JBool b) = ''boolean''"
| "typeof (JNum n) = ''number''"
| "typeof (JStr s) = ''string''"
| "typeof v = ''object''"

section \<open>Strings\<close>

definition digit :: "nat \<Rightarrow> char" where
  "digit n = ''0123456789'' ! (n mod 10)"

fun showNat :: "nat \<Rightarrow> string" where
  "showNat n = (if n < 10 then [digit n] else showNat (n div 10) @ [digit n])"

definition showInt :: "int \<Rightarrow> string" where
  "showInt i = (if i < 0 then CHR ''-'' # showNat (nat (- i)) else showNat (nat i))"

text \<open>\<^verbatim>\<open>n.toString().padStart(w, '0')\<close> for a number of at most \<open>w\<close> digits.\<close>

fun pad :: "nat \<Rightarrow> nat \<Rightarrow> string" where
  "pad 0 n = []"
| "pad (Suc w) n = pad w (n div 10) @ [digit n]"

fun join :: "string \<Rightarrow> string list \<Rightarrow> string" where
  "join sep [] = []"
| "join sep [x] = x"
| "join sep (x # y # ys) = x @ sep @ join sep (y # ys)"

text \<open>String conversion, as a template literal \<^verbatim>\<open>`${v}`\<close> performs it.\<close>

fun toStringJS :: "jsval \<Rightarrow> string" where
  "toStringJS JUndefined = ''undefined''"
| "toStringJS JNull = ''null''"
| "toStringJS (JBool b) = (if b then ''true'' else ''false'')"
| "toStringJS (JNum n) = showInt n"
| "toStringJS (JStr s) = s"
| "toStringJS (JArr xs ps) =
     join '','' (map (\<lambda>x. if x = JUndefined \<or> x = JNull then [] else toStringJS x) xs)"
| "toStringJS (JObj fs) = ''[object Object]''"
| "toStringJS (JError m st) = (if m = [] then ''Error'' else ''Error: '' @ m)"

text \<open>\<^verbatim>\<open>s.split(c)\<close> for a one-character separator: never empty, \<open>[[]]\<close> on the empty string.\<close>

fun split :: "char \<Rightarrow> string \<Rightarrow> string list" where
  "split c [] = [[]]"
| "split c (x # xs) =
     (if x = c then [] # split c xs
      else (case split c xs of
              [] \<Rightarrow> [[x]]
            | w # ws \<Rightarrow> (x # w) # ws))"

text \<open>\<^verbatim>\<open>s.includes(sub)\<close>: \<open>sub\<close> occurs in \<open>s\<close> as a contiguous substring.\<close>

fun str_includes :: "string \<Rightarrow> string \<Rightarrow> bool" where
  "str_includes [] sub = (sub = [])"
| "str_includes (x # xs) sub = (prefix sub (x # xs) \<or> str_includes xs sub)"

definition newline :: char where
  "newline = CHR 0x0A"

definition dquote :: char where
  "dquote = CHR 0x22"

section \<open>Dates\<close>

text \<open>
  The two methods of \<^verbatim>\<open>Date\<close> the logger calls, after the ECMAScript specification. A
  date holds a time value (milliseconds since the epoch, UTC) or is invalid (\<open>None\<close>).
  \<^verbatim>\<open>toISOString\<close> writes the UTC fields of the time value: the day number, the year
  containing a day, month and date from the day within the year, hour, minute, second and
  millisecond. On an invalid date it throws a \<^verbatim>\<open>RangeError\<close>. A year outside \<open>0..9999\<close> is
  written with a sign and six digits.
\<close>

datatype js_error = TypeError | RangeError | DeliveryFailure jsval

definition msPerDay :: int where
  "msPerDay = 86400000"

definition DayFromYear :: "int \<Rightarrow> int" where
  "DayFromYear y =
     365 * (y - 1970) + (y - 1969) div 4 - (y - 1901) div 100 + (y - 1601) div 400"

definition YearFromDay :: "int \<Rightarrow> int" where
  "YearFromDay day =
     (let y0 = 1970 + (day * 400) div 146097 in
      if DayFromYear (y0 + 1) \<le> day then y0 + 1
      else if DayFromYear y0 \<le> day then y0
      else y0 - 1)"

definition InLeapYear :: "int \<Rightarrow> bool" where
  "InLeapYear y = (DayFromYear (y + 1) - DayFromYear y = 366)"

text \<open>The number of days of the year before each month ends.\<close>

definition monthEnds :: "bool \<Rightarrow> int list" where
  "monthEnds leap =
     (let l = (if leap then 1 else 0) in
      [31, 59 + l, 90 + l, 120 + l, 151 + l, 181 + l, 212 + l, 243 + l, 273 + l,
       304 + l, 334 + l, 365 + l])"

definition MonthFromDay :: "bool \<Rightarrow> int \<Rightarrow> nat" where
  "MonthFromDay leap d = length (takeWhile (\<lambda>e. e \<le> d) (monthEnds leap))"

definition DateFromDay :: "bool \<Rightarrow> int \<Rightarrow> int" where
  "DateFromDay leap d =
     (let m = MonthFromDay leap d in
      d - (if m = 0 then 0 else monthEnds leap ! (m - 1)) + 1)"

definition isoYear :: "int \<Rightarrow> string" where
  "isoYear y =
     (if 0 \<le> y \<and> y \<le> 9999 then pad 4 (nat y)
      else (if y < 0 then CHR ''-'' else CHR ''+'') # pad 6 (nat \<bar>y\<bar>))"

definition HourFromTime :: "int \<Rightarrow> int" where
  "HourFromTime t = (t div 3600000) mod 24"

definition MinFromTime :: "int \<Rightarrow> int" where
  "MinFromTime t = (t div 60000) mod 60"

definition SecFromTime :: "int \<Rightarrow> int" where
  "SecFromTime t = (t div 1000) mod 60"

definition msFromTime :: "int \<Rightarrow> int" where
  "msFromTime t = t mod 1000"

definition isoTime :: "int \<Rightarrow> string" where
  "isoTime t =
     pad 2 (nat (HourFromTime t)) @ '':'' @ pad 2 (nat (MinFromTime t)) @ '':'' @
     pad 2 (nat (SecFromTime t)) @ ''.'' @ pad 3 (nat (msFromTime t))"

definition isoDate :: "int \<Rightarrow> string" where
  "isoDate t =
     (let day = t div msPerDay;
          y = YearFromDay day;
          leap = InLeapYear y;
          d = day - DayFromYear y
      in isoYear y @ ''-'' @ pad 2 (MonthFromDay leap d + 1) @ ''-'' @
         pad 2 (nat (DateFromDay leap d)))"

definition toISOString :: "int option \<Rightarrow> js_error + string" where
  "toISOString tv =
     (case tv of
        None \<Rightarrow> Inl RangeError
      | Some t \<Rightarrow> Inr (isoDate t @ ''T'' @ isoTime t @ ''Z''))"

text \<open>
  \<^verbatim>\<open>Date.prototype.setMilliseconds\<close> works on local time, so it depends on the time zone
  of the host: the offset of local time from UTC, in milliseconds, that is in force at a
  UTC instant (\<^verbatim>\<open>LocalTZA(t, true)\<close>) and at a local time (\<^verbatim>\<open>LocalTZA(t, false)\<close>). The
  method takes the local time of the date, replaces its milliseconds within the second by
  the argument (which may be any integer, carrying over into the other fields), converts
  back to UTC and clips: a time value beyond \<open>8.64 * 10^15\<close> in magnitude makes the date
  invalid.
\<close>

record zone =
  offsetAtUTC :: "int \<Rightarrow> int"
  offsetAtLocal :: "int \<Rightarrow> int"

definition LocalTime :: "zone \<Rightarrow> int \<Rightarrow> int" where
  "LocalTime tz t = t + offsetAtUTC tz t"

definition UTC :: "zone \<Rightarrow> int \<Rightarrow> int" where
  "UTC tz t = t - offsetAtLocal tz t"

definition Day :: "int \<Rightarrow> int" where
  "Day t = t div msPerDay"

definition MakeTime :: "int \<Rightarrow> int \<Rightarrow> int \<Rightarrow> int \<Rightarrow> int" where
  "MakeTime hour minute sec ms = hour * 3600000 + minute * 60000 + sec * 1000 + ms"

definition MakeDate :: "int \<Rightarrow> int \<Rightarrow> int" where
  "MakeDate day time = day * msPerDay + time"

definition TimeClip :: "int \<Rightarrow> int option" where
  "TimeClip t = (if \<bar>t\<bar> > 8640000000000000 then None else Some t)"

text \<open>On a date with the (valid) time value \<open>t\<close>.\<close>

definition setMilliseconds :: "zone \<Rightarrow> int \<Rightarrow> int \<Rightarrow> int option" where
  "setMilliseconds tz t ms =
     (let local = LocalTime tz t;
          time = MakeTime (HourFromTime local) (MinFromTime local) (SecFromTime local) ms
      in TimeClip (UTC tz (MakeDate (Day local) time)))"

text \<open>\<^verbatim>\<open>s.substr(start, len)\<close> for a start inside the string.\<close>

definition substr :: "string \<Rightarrow> nat \<Rightarrow> nat \<Rightarrow> string" where
  "substr s start len = take len (drop start s)"


section \<open>Levels and the process-wide threshold\<close>

definition levels :: "string list" where
  "levels = [''trace'', ''info'', ''warn'', ''error'', ''fatal'', ''security'']"

text \<open>\<^verbatim>\<open>xs.indexOf(x)\<close>: the first position of \<open>x\<close>, or \<open>-1\<close>.\<close>

fun indexOf :: "string list \<Rightarrow> string \<Rightarrow> int" where
  "indexOf [] x = - 1"
| "indexOf (y # ys) x =
     (if y = x then 0 else (let i = indexOf ys x in if i < 0 then - 1 else i + 1))"

text \<open>\<^verbatim>\<open>levels[i]\<close>: \<^verbatim>\<open>undefined\<close> outside the list.\<close>

definition levelAt :: "int \<Rightarrow> jsval" where
  "levelAt i = (if 0 \<le> i \<and> i < int (length levels) then JStr (levels ! nat i) else JUndefined)"

definition errorLevel :: int where
  "errorLevel = indexOf levels ''error''"

text \<open>
  The environment of a call: what the process and the collaborators that are not part of
  the logger answer. \<open>v4\<close> is the identifier \<^verbatim>\<open>uuid.v4()\<close> returns, \<open>newErrorStack\<close>
  the stack a \<^verbatim>\<open>new Error()\<close> captures (absent on an engine without stacks),
  \<open>dateNow\<close> the clock, \<open>timeZone\<close> the time zone of the host, \<open>logSingleResult\<close>
  and \<open>logBatchResult\<close> how the promise of the delivery call settles.
\<close>

datatype promise = Resolved jsval | Rejected js_error

record env =
  LALOG_LEVEL :: "string option"
  NODE_ENV :: "string option"
  v4 :: string
  newErrorStack :: "string option"
  dateNow :: int
  timeZone :: zone
  logSingleResult :: promise
  logBatchResult :: promise

definition getInitialLogLevel :: "env \<Rightarrow> int" where
  "getInitialLogLevel e =
     (case LALOG_LEVEL e of
        Some laLogLevel \<Rightarrow>
          if laLogLevel \<in> set levels then indexOf levels laLogLevel else errorLevel
      | None \<Rightarrow> errorLevel)"

text \<open>
  The module variable \<^verbatim>\<open>currentLevelIndex\<close> is the state the static methods read and
  write: they take it and \<^verbatim>\<open>setLevel\<close> returns it updated.
\<close>

definition getLevel :: "int \<Rightarrow> jsval" where
  "getLevel currentLevelIndex = levelAt currentLevelIndex"

text \<open>The argument is absent (\<open>None\<close>) or a string; the empty string is falsy.\<close>

definition setLevel :: "string option \<Rightarrow> int \<Rightarrow> jsval \<times> int" where
  "setLevel newLevelName currentLevelIndex =
     (let previousLevel = getLevel currentLevelIndex in
      case newLevelName of
        None \<Rightarrow> (previousLevel, currentLevelIndex)
      | Some name \<Rightarrow>
          if name = [] then (previousLevel, currentLevelIndex)
          else (let newLevelIndex = indexOf levels name in
                if newLevelIndex \<ge> 0 then (previousLevel, newLevelIndex)
                else (previousLevel, currentLevelIndex)))"

section \<open>The logger\<close>

text \<open>
  Modelled from the spec: \<^verbatim>\<open>isObject\<close> of \<^verbatim>\<open>./utils\<close> is not among the sources. The spec
  describes the test as "is it a record-like object" and "a plain record-like value":
  it holds of objects with properties and of nothing else.
\<close>

fun isObject :: "jsval \<Rightarrow> bool" where
  "isObject (JObj fs) = True"
| "isObject v = False"

fun ownEntries :: "jsval \<Rightarrow> jsobject" where
  "ownEntries (JObj fs) = fs"
| "ownEntries v = []"

record LaLogOptions =
  addTrackId :: bool
  moduleName :: "string option"
  presetsOpt :: jsval
  serviceName :: "string option"
  isTransientOpt :: bool

record Logger =
  isTransient :: bool
  logCollector :: "jsobject list option"
  presets :: jsobject
  tag :: string
  timers :: "(string \<times> int) list"
  isTransientTriggered :: bool

definition optStr :: "string option \<Rightarrow> jsval" where
  "optStr s = (case s of None \<Rightarrow> JUndefined | Some x \<Rightarrow> JStr x)"

text \<open>The constructor (\<^verbatim>\<open>Logger.create\<close> only calls it).\<close>

definition create :: "env \<Rightarrow> LaLogOptions \<Rightarrow> Logger" where
  "create e options =
     (let presets0 = AList.merge [(''module'', optStr (moduleName options))]
                       (if isObject (presetsOpt options) then ownEntries (presetsOpt options)
                        else []);
          presets1 = (if addTrackId options \<and> \<not> truthy (getField presets0 ''trackId'')
                      then AList.update ''trackId'' (JStr (v4 e)) presets0 else presets0)
      in \<lparr> isTransient = isTransientOpt options,
           logCollector = (if isTransientOpt options then Some [] else None),
           presets = presets1,
           tag = toStringJS (optStr (serviceName options)) @ ''-'' @
                 toStringJS (optStr (NODE_ENV e)),
           timers = [],
           isTransientTriggered = False \<rparr>)"

text \<open>
  \<^verbatim>\<open>this.time(label)\<close>: an assignment to \<^verbatim>\<open>__proto__\<close> with a number is ignored by
  JavaScript and creates no property.
\<close>

definition time :: "env \<Rightarrow> Logger \<Rightarrow> string \<Rightarrow> Logger" where
  "time e this label =
     (if label = ''__proto__'' then this
      else this\<lparr> timers := AList.update label (dateNow e) (timers this) \<rparr>)"

definition parseReq :: "jsval \<Rightarrow> jsval" where
  "parseReq req =
     JObj [(''body'', getProp req ''body''),
           (''headers'', getProp req ''headers''),
           (''method'', getProp req ''method''),
           (''params'', getProp req ''params''),
           (''path'', getProp req ''path''),
           (''query'', getProp req ''query''),
           (''url'', getProp req ''url''),
           (''user'', getProp req ''user'')]"

text \<open>
  \<^verbatim>\<open>formatMilliseconds\<close>, lines 208 to 212: the date of the epoch, its milliseconds set
  in the local time of the host, written in UTC and cut.
\<close>

definition formatMilliseconds :: "zone \<Rightarrow> int \<Rightarrow> js_error + string" where
  "formatMilliseconds tz milliseconds =
     (let date = setMilliseconds tz 0 milliseconds in
      case toISOString date of
        Inl e \<Rightarrow> Inl e
      | Inr isoString \<Rightarrow> Inr (substr isoString 11 12))"

subsection \<open>write\<close>

text \<open>
  What a call does to the world, in order: a line on \<^verbatim>\<open>console.error\<close>, a reply
  \<^verbatim>\<open>res.status(code).send(payload)\<close>, a call of \<^verbatim>\<open>logSingle\<close> or of \<^verbatim>\<open>logBatch\<close> with the
  record(s) and the tag. The response object is an opaque handle.
\<close>

record ResponseWrapper =
  res :: nat
  code :: int

datatype effect =
    ConsoleError string
  | Reply nat int jsval
  | LogSingle jsobject string
  | LogBatch "jsobject list" string

text \<open>Lines 247 and 248: the presets with the event fields other than \<^verbatim>\<open>req\<close> spread over them.\<close>

definition partialRecord :: "Logger \<Rightarrow> jsval \<Rightarrow> jsobject" where
  "partialRecord this logData =
     (let rest = AList.delete ''req'' (ownEntries logData) in
      AList.merge (presets this) rest)"

text \<open>Lines 250 to 260: the reply and the \<^verbatim>\<open>errorId\<close>.\<close>

definition errorIdFor :: "env \<Rightarrow> jsobject \<Rightarrow> jsval" where
  "errorIdFor e logObj =
     (if truthy (getField logObj ''errorId'') then getField logObj ''errorId'' else JStr (v4 e))"

definition replyStep :: "env \<Rightarrow> ResponseWrapper option \<Rightarrow> jsobject \<Rightarrow> jsobject \<times> effect list" where
  "replyStep e response logObj =
     (case response of
        None \<Rightarrow> (logObj, [])
      | Some r \<Rightarrow>
          (let errorId = errorIdFor e logObj
           in (AList.update ''errorId'' errorId logObj,
               [Reply (res r) (code r) (JObj [(''errorId'', errorId), (''success'', JBool False)])])))"

text \<open>
  Lines 283 to 293: the stack of the error value. Where the value has no (truthy) stack a
  fresh one (\<^verbatim>\<open>new Error().stack ?? '<no error stack>'\<close>) is assigned to it, which throws
  on a primitive; \<^verbatim>\<open>split\<close> then exists on a string only.
\<close>

definition freshStack :: "env \<Rightarrow> string" where
  "freshStack e = (case newErrorStack e of None \<Rightarrow> ''<no error stack>'' | Some s \<Rightarrow> s)"

definition errStack :: "env \<Rightarrow> jsval \<Rightarrow> js_error + string" where
  "errStack e err =
     (let stack = getProp err ''stack'' in
      if \<not> truthy stack then
        (if isPrimitive err then Inl TypeError else Inr (freshStack e))
      else (case stack of JStr s \<Rightarrow> Inr s | _ \<Rightarrow> Inl TypeError))"

text \<open>
  The assignment of line 291 changes the error object itself, and the spread of line 248
  copies references, not objects: when the error value of the record is the one of the
  presets (the event has no \<^verbatim>\<open>err\<close> key of its own to put in its place), the error of
  the presets has the fresh stack from then on. (When it is the one of the event, the
  object that changes belongs to the caller: an event is a value of its own, which shares
  no object with the presets.)
\<close>

fun withStack :: "jsval \<Rightarrow> string \<Rightarrow> jsval" where
  "withStack (JError m st) s = JError m (Some s)"
| "withStack (JObj fs) s = JObj (AList.update ''stack'' (JStr s) fs)"
| "withStack (JArr xs ps) s = JArr xs (AList.update ''stack'' (JStr s) ps)"
| "withStack v s = v"

definition presetsAfter :: "env \<Rightarrow> Logger \<Rightarrow> jsval \<Rightarrow> jsobject" where
  "presetsAfter e this logData =
     (let rest = AList.delete ''req'' (ownEntries logData);
          err = getField (presets this) ''err''
      in if map_of rest ''err'' = None \<and> truthy err \<and> \<not> isPrimitive err \<and>
            \<not> truthy (getProp err ''stack'')
         then AList.update ''err'' (withStack err (freshStack e)) (presets this)
         else presets this)"

definition hasNodeModules :: "string \<Rightarrow> bool" where
  "hasNodeModules i = (\<not> str_includes i ''/node_modules/'')"

definition stackLines :: "string list \<Rightarrow> jsval" where
  "stackLines ls = JArr (map JStr ls) []"

text \<open>Lines 276 to 303: the level name and the error fields.\<close>

definition enrich :: "env \<Rightarrow> int \<Rightarrow> jsobject \<Rightarrow> js_error + jsobject" where
  "enrich e levelIndex logObj0 =
     (let logObj1 = AList.update ''level'' (levelAt levelIndex) logObj0;
          logObj2 = (if levelIndex \<ge> errorLevel \<and> \<not> truthy (getField logObj1 ''err'')
                     then AList.update ''err'' (JError [] (newErrorStack e)) logObj1
                     else logObj1);
          err = getField logObj2 ''err''
      in if truthy err then
           (case errStack e err of
              Inl x \<Rightarrow> Inl x
            | Inr stack \<Rightarrow>
                (let fullStack = drop 1 (split newline stack);
                     shortStack = filter hasNodeModules fullStack;
                     logObj3 = AList.update ''fullStack'' (stackLines fullStack) logObj2;
                     logObj4 = AList.update ''shortStack'' (stackLines shortStack) logObj3;
                     logObj5 = (if \<not> truthy (getField logObj4 ''msg'')
                                then AList.update ''msg'' (getProp err ''message'') logObj4
                                else logObj4)
                 in Inr (AList.delete ''err'' logObj5)))
         else Inr logObj2)"

text \<open>Lines 309 to 319: buffer, flush or deliver.\<close>

definition route :: "env \<Rightarrow> int \<Rightarrow> Logger \<Rightarrow> int \<Rightarrow> jsobject \<Rightarrow> Logger \<times> effect list \<times> promise" where
  "route e currentLevelIndex this levelIndex logObj =
     (case logCollector this of
        Some collector \<Rightarrow>
          if \<not> isTransientTriggered this then
            (let pushed = collector @ [logObj] in
             if levelIndex \<ge> currentLevelIndex then
               (case logBatchResult e of
                  Resolved v \<Rightarrow>
                    (this\<lparr> logCollector := None, isTransientTriggered := True \<rparr>,
                     [LogBatch pushed (tag this)], Resolved JUndefined)
                | Rejected x \<Rightarrow>
                    (this\<lparr> logCollector := Some pushed, isTransientTriggered := True \<rparr>,
                     [LogBatch pushed (tag this)], Rejected x))
             else (this\<lparr> logCollector := Some pushed \<rparr>, [], Resolved JUndefined))
          else (this, [LogSingle logObj (tag this)], logSingleResult e)
      | None \<Rightarrow> (this, [LogSingle logObj (tag this)], logSingleResult e))"

text \<open>
  \<^verbatim>\<open>write\<close> is \<^verbatim>\<open>async\<close>: whatever it throws rejects the promise it returns. The result
  is the logger after the call, the effects in order and the settled promise. Where lines
  283 to 293 throw, they do so before anything has been assigned.
\<close>

definition Logger_write ::
  "env \<Rightarrow> int \<Rightarrow> Logger \<Rightarrow> int \<Rightarrow> jsval \<Rightarrow> ResponseWrapper option \<Rightarrow> Logger \<times> effect list \<times> promise" where
  "Logger_write e currentLevelIndex this levelIndex logData response =
     (if \<not> isObject logData then
        (this,
         [ConsoleError (''Expecting an object in logger write method but got '' @
                        [dquote] @ typeof logData @ [dquote])],
         Resolved JUndefined)
      else
        (let req = getField (ownEntries logData) ''req'';
             (logObj, replied) = replyStep e response (partialRecord this logData)
         in if levelIndex \<ge> currentLevelIndex \<or> isTransient this then
              (case enrich e levelIndex logObj of
                 Inl x \<Rightarrow> (this, replied, Rejected x)
               | Inr enriched \<Rightarrow>
                   (let logObj' = (if truthy req then AList.update ''req'' (parseReq req) enriched
                                   else enriched);
                        (this', delivered, settled) =
                          route e currentLevelIndex
                            (this\<lparr> presets := presetsAfter e this logData \<rparr>) levelIndex logObj'
                    in (this', replied @ delivered, settled)))
            else (this, replied, Resolved JUndefined)))"

text \<open>The six methods bound in the constructor.\<close>

definition trace :: "env \<Rightarrow> int \<Rightarrow> Logger \<Rightarrow> jsval \<Rightarrow> ResponseWrapper option \<Rightarrow> Logger \<times> effect list \<times> promise" where
  "trace e cur this = Logger_write e cur this (indexOf levels ''trace'')"

definition info :: "env \<Rightarrow> int \<Rightarrow> Logger \<Rightarrow> jsval \<Rightarrow> ResponseWrapper option \<Rightarrow> Logger \<times> effect list \<times> promise" where
  "info e cur this = Logger_write e cur this (indexOf levels ''info'')"

definition warn :: "env \<Rightarrow> int \<Rightarrow> Logger \<Rightarrow> jsval \<Rightarrow> ResponseWrapper option \<Rightarrow> Logger \<times> effect list \<times> promise" where
  "warn e cur this = Logger_write e cur this (indexOf levels ''warn'')"

definition error :: "env \<Rightarrow> int \<Rightarrow> Logger \<Rightarrow> jsval \<Rightarrow> ResponseWrapper option \<Rightarrow> Logger \<times> effect list \<times> promise" where
  "error e cur this = Logger_write e cur this (indexOf levels ''error'')"

definition fatal :: "env \<Rightarrow> int \<Rightarrow> Logger \<Rightarrow> jsval \<Rightarrow> ResponseWrapper option \<Rightarrow> Logger \<times> effect list \<times> promise" where
  "fatal e cur this = Logger_write e cur this (indexOf levels ''fatal'')"

definition security :: "env \<Rightarrow> int \<Rightarrow> Logger \<Rightarrow> jsval \<Rightarrow> ResponseWrapper option \<Rightarrow> Logger \<times> effect list \<times> promise" where
  "security e cur this = Logger_write e cur this (indexOf levels ''security'')"

subsection \<open>writeTimeEnd\<close>

text \<open>
  Lines 218 to 233: the event \<^verbatim>\<open>writeTimeEnd\<close> builds. \<^verbatim>\<open>formatMilliseconds\<close> may throw,
  and then \<^verbatim>\<open>writeTimeEnd\<close> throws (it is not \<^verbatim>\<open>async\<close>). The extra data is an object
  or absent.
\<close>

definition missingLabel :: "env \<Rightarrow> string \<Rightarrow> string" where
  "missingLabel e label =
     ''Missing label '' @ [dquote] @ label @ [dquote] @ '' in timeEnd()'' @ [newline] @
     toStringJS (optStr (newErrorStack e))"

definition timerMsg :: "jsval \<Rightarrow> string" where
  "timerMsg msg = (if truthy msg then ''Timer - '' @ toStringJS msg else ''Timer'')"

definition timeEndData :: "env \<Rightarrow> Logger \<Rightarrow> string \<Rightarrow> jsobject option \<Rightarrow> js_error + jsobject" where
  "timeEndData e this label extraLogDat =
     (let extraLogData = (case extraLogDat of None \<Rightarrow> [] | Some d \<Rightarrow> d);
          duration =
            (case map_of (timers this) label of
               Some t \<Rightarrow> formatMilliseconds (timeZone e) (dateNow e - t)
             | None \<Rightarrow> Inr (missingLabel e label));
          msg = timerMsg (getField extraLogData ''msg'')
      in case duration of
           Inl x \<Rightarrow> Inl x
         | Inr d \<Rightarrow>
             Inr (AList.update ''timerLabel'' (JStr label)
                   (AList.update ''msg'' (JStr msg)
                     (AList.update ''duration'' (JStr d) extraLogData))))"

definition writeTimeEnd ::
  "env \<Rightarrow> int \<Rightarrow> Logger \<Rightarrow> string \<Rightarrow> string \<Rightarrow> jsobject option \<Rightarrow>
   js_error + Logger \<times> effect list \<times> promise" where
  "writeTimeEnd e currentLevelIndex this label level extraLogDat =
     (let levelIndex = indexOf levels level in
      case timeEndData e this label extraLogDat of
        Inl x \<Rightarrow> Inl x
      | Inr logData \<Rightarrow> Inr (Logger_write e currentLevelIndex this levelIndex (JObj logData) None))"


section \<open>Observing a call\<close>

text \<open>The three components of what a call returns.\<close>

definition loggerAfter :: "Logger \<times> effect list \<times> promise \<Rightarrow> Logger" where
  "loggerAfter r = fst r"

definition effectsOf :: "Logger \<times> effect list \<times> promise \<Rightarrow> effect list" where
  "effectsOf r = fst (snd r)"

definition settledAs :: "Logger \<times> effect list \<times> promise \<Rightarrow> promise" where
  "settledAs r = snd (snd r)"

fun isDelivery :: "effect \<Rightarrow> bool" where
  "isDelivery (LogSingle r t) = True"
| "isDelivery (LogBatch rs t) = True"
| "isDelivery x = False"

fun isReply :: "effect \<Rightarrow> bool" where
  "isReply (Reply r c p) = True"
| "isReply x = False"

definition deliveries :: "effect list \<Rightarrow> effect list" where
  "deliveries fx = filter isDelivery fx"

definition replies :: "effect list \<Rightarrow> effect list" where
  "replies fx = filter isReply fx"

fun isString :: "jsval \<Rightarrow> bool" where
  "isString (JStr s) = True"
| "isString v = False"

text \<open>
  The error values on which lines 282 to 303 do not throw: a falsy one (nothing is done
  with it), and an object, an \<^verbatim>\<open>Error\<close> or any other, whose stack is absent, falsy or a
  string. On a truthy primitive the assignment of line 291 throws, and on a truthy stack
  that is not a string line 293 does.
\<close>

definition errUsable :: "jsval \<Rightarrow> bool" where
  "errUsable err \<longleftrightarrow>
     \<not> truthy err \<or>
     (\<not> isPrimitive err \<and>
      (\<not> truthy (getProp err ''stack'') \<or> isString (getProp err ''stack'')))"

text \<open>
  The events from which \<^verbatim>\<open>write\<close> builds a record: record-like objects such that the
  error value of the partial record (the \<^verbatim>\<open>err\<close> of the event or, when the event has no
  such key, the one of the presets) is one of those.
\<close>

definition enrichable :: "Logger \<Rightarrow> jsval \<Rightarrow> bool" where
  "enrichable this logData \<longleftrightarrow>
     isObject logData \<and> errUsable (getField (partialRecord this logData) ''err'')"

text \<open>
  The error value lines 282 to 303 work on: the one of the record when it is truthy, a new
  \<^verbatim>\<open>Error\<close> (line 279) at level \<^verbatim>\<open>error\<close> and above, and none otherwise.
\<close>

definition workedError :: "env \<Rightarrow> int \<Rightarrow> jsobject \<Rightarrow> jsval option" where
  "workedError e levelIndex logObj =
     (if truthy (getField logObj ''err'') then Some (getField logObj ''err'')
      else if levelIndex \<ge> errorLevel then Some (JError [] (newErrorStack e))
      else None)"

text \<open>
  The stack of an \<^verbatim>\<open>Error\<close> at the moment line 293 splits it: its own, or the freshly
  captured one that line 291 has put in its place when it had none.
\<close>

definition stackOfError :: "env \<Rightarrow> string option \<Rightarrow> string" where
  "stackOfError e st =
     (case st of
        None \<Rightarrow> freshStack e
      | Some s \<Rightarrow> if s = [] then freshStack e else s)"

text \<open>
  The record lines 247 to 307 build for a call, apart from the effects: the partial record
  with the \<^verbatim>\<open>errorId\<close>, enriched, with the projected request.
\<close>

definition normalizedRecord ::
  "env \<Rightarrow> Logger \<Rightarrow> int \<Rightarrow> jsval \<Rightarrow> ResponseWrapper option \<Rightarrow> js_error + jsobject" where
  "normalizedRecord e this levelIndex logData response =
     (let req = getField (ownEntries logData) ''req'' in
      case enrich e levelIndex (fst (replyStep e response (partialRecord this logData))) of
        Inl x \<Rightarrow> Inl x
      | Inr enriched \<Rightarrow>
          Inr (if truthy req then AList.update ''req'' (parseReq req) enriched else enriched))"

text \<open>
  The records a call hands over: the one of a single delivery, the last one of a batch (the
  earlier ones come from earlier calls), and what the call appends to the buffer.
\<close>

fun recordOf :: "effect \<Rightarrow> jsobject list" where
  "recordOf (LogSingle r t) = [r]"
| "recordOf (LogBatch rs t) = (if rs = [] then [] else [last rs])"
| "recordOf x = []"

definition delivered :: "effect list \<Rightarrow> jsobject list" where
  "delivered fx = concat (map recordOf fx)"

definition buffered :: "Logger \<Rightarrow> Logger \<Rightarrow> jsobject list" where
  "buffered this this' =
     (case logCollector this of
        None \<Rightarrow> []
      | Some c \<Rightarrow> (case logCollector this' of None \<Rightarrow> [] | Some c' \<Rightarrow> drop (length c) c'))"

definition handedOver :: "Logger \<Rightarrow> Logger \<times> effect list \<times> promise \<Rightarrow> jsobject list" where
  "handedOver this r = delivered (effectsOf r) @ buffered this (loggerAfter r)"

text \<open>A sequence of calls on one logger, each with its environment and the threshold of its moment.\<close>

record call =
  callEnv :: env
  callThreshold :: int
  callLevel :: int
  callData :: jsval
  callResponse :: "ResponseWrapper option"

definition recordFor :: "Logger \<Rightarrow> call \<Rightarrow> jsobject" where
  "recordFor this c =
     (case normalizedRecord (callEnv c) this (callLevel c) (callData c) (callResponse c) of
        Inl x \<Rightarrow> []
      | Inr rec \<Rightarrow> rec)"

definition writeCall :: "Logger \<Rightarrow> call \<Rightarrow> Logger \<times> effect list \<times> promise" where
  "writeCall this c =
     Logger_write (callEnv c) (callThreshold c) this (callLevel c) (callData c) (callResponse c)"

fun writeAll :: "Logger \<Rightarrow> call list \<Rightarrow> Logger \<times> effect list" where
  "writeAll this [] = (this, [])"
| "writeAll this (c # cs) =
     (let r = writeCall this c;
          (this', fx) = writeAll (loggerAfter r) cs
      in (this', effectsOf r @ fx))"

text \<open>The records a sequence of calls builds, each on the logger as the calls before left it.\<close>

fun recordsBuilt :: "Logger \<Rightarrow> call list \<Rightarrow> jsobject list" where
  "recordsBuilt this [] = []"
| "recordsBuilt this (c # cs) = recordFor this c # recordsBuilt (loggerAfter (writeCall this c)) cs"

section \<open>Example values\<close>

text \<open>A host in UTC, and one with the offsets New York had in 1970 (daylight saving time from 26 April to 25 October).\<close>

definition utcZone :: zone where
  "utcZone = \<lparr> offsetAtUTC = (\<lambda>t. 0), offsetAtLocal = (\<lambda>t. 0) \<rparr>"

definition newYork1970 :: zone where
  "newYork1970 =
     \<lparr> offsetAtUTC = (\<lambda>t. if 9961200000 \<le> t \<and> t < 25682400000 then - 14400000 else - 18000000),
       offsetAtLocal = (\<lambda>t. if 9946800000 \<le> t \<and> t < 25668000000 then - 14400000 else - 18000000) \<rparr>"

definition env0 :: env where
  "env0 =
     \<lparr> LALOG_LEVEL = None, NODE_ENV = Some ''test'', v4 = ''0b1c2d3e'',
       newErrorStack = Some (''Error'' @ [newline] @ '' at write (/app/index.js:279:22)'' @
                             [newline] @ '' at next (/app/node_modules/x/r.js:10:5)'' @
                             [newline] @ '' at main (/app/server.js:5:3)''),
       dateNow = 1000, timeZone = utcZone, logSingleResult = Resolved JUndefined,
       logBatchResult = Resolved JUndefined \<rparr>"

text \<open>The same with a batch delivery that fails.\<close>

definition envDown :: env where
  "envDown = env0\<lparr> logBatchResult := Rejected (DeliveryFailure (JStr ''down'')) \<rparr>"

definition plainLogger :: Logger where
  "plainLogger =
     create env0 \<lparr> addTrackId = False, moduleName = Some ''api'', presetsOpt = JUndefined,
                   serviceName = Some ''svc'', isTransientOpt = False \<rparr>"

definition transientLogger :: Logger where
  "transientLogger =
     create env0 \<lparr> addTrackId = False, moduleName = Some ''api'', presetsOpt = JUndefined,
                   serviceName = Some ''svc'', isTransientOpt = True \<rparr>"

text \<open>A logger with a preset \<^verbatim>\<open>err\<close> that is an \<^verbatim>\<open>Error\<close> without a stack.\<close>

definition stacklessLogger :: Logger where
  "stacklessLogger =
     create env0 \<lparr> addTrackId = False, moduleName = Some ''api'',
                   presetsOpt = JObj [(''err'', JError ''preset'' None)],
                   serviceName = Some ''svc'', isTransientOpt = False \<rparr>"

text \<open>Loggers with a preset \<^verbatim>\<open>err\<close> that is a string.\<close>

definition oopsLogger :: Logger where
  "oopsLogger =
     create env0 \<lparr> addTrackId = False, moduleName = Some ''api'',
                   presetsOpt = JObj [(''err'', JStr ''oops'')],
                   serviceName = Some ''svc'', isTransientOpt = False \<rparr>"

definition oopsTransient :: Logger where
  "oopsTransient =
     create env0 \<lparr> addTrackId = False, moduleName = Some ''api'',
                   presetsOpt = JObj [(''err'', JStr ''oops'')],
                   serviceName = Some ''svc'', isTransientOpt = True \<rparr>"



definition plainEvent :: jsval where
  "plainEvent = JObj [(''msg'', JStr ''disk full'')]"

definition plainRecord :: jsobject where
  "plainRecord =
     [(''module'', JStr ''api''),
      (''msg'', JStr ''disk full''),
      (''level'', JStr ''error''),
      (''fullStack'', JArr [JStr '' at write (/app/index.js:279:22)'',
                            JStr '' at next (/app/node_modules/x/r.js:10:5)'',
                            JStr '' at main (/app/server.js:5:3)''] []),
      (''shortStack'', JArr [JStr '' at write (/app/index.js:279:22)'',
                             JStr '' at main (/app/server.js:5:3)''] [])]"

definition wrapper500 :: ResponseWrapper where
  "wrapper500 = \<lparr> res = 7, code = 500 \<rparr>"

definition repliedRecord :: jsobject where
  "repliedRecord =
     [(''module'', JStr ''api''),
      (''msg'', JStr ''disk full''),
      (''errorId'', JStr ''0b1c2d3e''),
      (''level'', JStr ''error''),
      (''fullStack'', JArr [JStr '' at write (/app/index.js:279:22)'',
                            JStr '' at next (/app/node_modules/x/r.js:10:5)'',
                            JStr '' at main (/app/server.js:5:3)''] []),
      (''shortStack'', JArr [JStr '' at write (/app/index.js:279:22)'',
                             JStr '' at main (/app/server.js:5:3)''] [])]"

definition overrideEvent :: jsval where
  "overrideEvent = JObj [(''module'', JStr ''billing'')]"

definition overrideRecord :: jsobject where
  "overrideRecord =
     [(''module'', JStr ''billing''),
      (''level'', JStr ''error''),
      (''fullStack'', JArr [JStr '' at write (/app/index.js:279:22)'',
                            JStr '' at next (/app/node_modules/x/r.js:10:5)'',
                            JStr '' at main (/app/server.js:5:3)''] []),
      (''shortStack'', JArr [JStr '' at write (/app/index.js:279:22)'',
                             JStr '' at main (/app/server.js:5:3)''] []),
      (''msg'', JStr [])]"

definition nullErrEvent :: jsval where
  "nullErrEvent = JObj [(''err'', JNull)]"

definition nullErrRecord :: jsobject where
  "nullErrRecord = [(''module'', JStr ''api''), (''err'', JNull), (''level'', JStr ''info'')]"

definition undefinedErrEvent :: jsval where
  "undefinedErrEvent = JObj [(''err'', JUndefined)]"

definition undefinedErrRecord :: jsobject where
  "undefinedErrRecord =
     [(''module'', JStr ''api''), (''err'', JUndefined), (''level'', JStr ''info'')]"

definition timerRecord :: jsobject where
  "timerRecord =
     [(''module'', JStr ''api''),
      (''timerLabel'', JStr ''missing-label''),
      (''msg'', JStr ''Timer''),
      (''duration'',
       JStr (''Missing label '' @ [dquote] @ ''missing-label'' @ [dquote] @ '' in timeEnd()'' @
             [newline] @ ''Error'' @ [newline] @ '' at write (/app/index.js:279:22)'' @
             [newline] @ '' at next (/app/node_modules/x/r.js:10:5)'' @
             [newline] @ '' at main (/app/server.js:5:3)'')),
      (''level'', JStr ''error''),
      (''fullStack'', JArr [JStr '' at write (/app/index.js:279:22)'',
                            JStr '' at next (/app/node_modules/x/r.js:10:5)'',
                            JStr '' at main (/app/server.js:5:3)''] []),
      (''shortStack'', JArr [JStr '' at write (/app/index.js:279:22)'',
                             JStr '' at main (/app/server.js:5:3)''] [])]"

text \<open>An error value that is an object of the caller's making, with no stack.\<close>

definition homemadeEvent :: jsval where
  "homemadeEvent = JObj [(''err'', JObj [(''message'', JStr ''homemade'')])]"

definition homemadeRecord :: jsobject where
  "homemadeRecord =
     [(''module'', JStr ''api''),
      (''level'', JStr ''error''),
      (''fullStack'', JArr [JStr '' at write (/app/index.js:279:22)'',
                            JStr '' at next (/app/node_modules/x/r.js:10:5)'',
                            JStr '' at main (/app/server.js:5:3)''] []),
      (''shortStack'', JArr [JStr '' at write (/app/index.js:279:22)'',
                             JStr '' at main (/app/server.js:5:3)''] []),
      (''msg'', JStr ''homemade'')]"

definition said :: "string \<Rightarrow> jsval" where
  "said m = JObj [(''msg'', JStr m)]"

text \<open>The transient logger after a \<^verbatim>\<open>trace\<close> and an \<^verbatim>\<open>info\<close> call, the threshold at \<^verbatim>\<open>error\<close>.\<close>

definition afterTwo :: Logger where
  "afterTwo =
     loggerAfter (info env0 errorLevel
                    (loggerAfter (trace env0 errorLevel transientLogger (said ''a'') None))
                    (said ''b'') None)"

definition saidRecord :: "string \<Rightarrow> string \<Rightarrow> jsobject" where
  "saidRecord m l = [(''module'', JStr ''api''), (''msg'', JStr m), (''level'', JStr l)]"

definition saidErrorRecord :: "string \<Rightarrow> jsobject" where
  "saidErrorRecord m =
     [(''module'', JStr ''api''),
      (''msg'', JStr m),
      (''level'', JStr ''error''),
      (''fullStack'', JArr [JStr '' at write (/app/index.js:279:22)'',
                            JStr '' at next (/app/node_modules/x/r.js:10:5)'',
                            JStr '' at main (/app/server.js:5:3)''] []),
      (''shortStack'', JArr [JStr '' at write (/app/index.js:279:22)'',
                             JStr '' at main (/app/server.js:5:3)''] [])]"

definition infoRecord :: jsobject where
  "infoRecord = [(''module'', JStr ''api''), (''msg'', JStr ''disk full''), (''level'', JStr ''info'')]"

section \<open>Properties of the level registry\<close>

lemma indexOf_levels_mem:
  "name \<in> set levels \<Longrightarrow> 0 \<le> indexOf levels name \<and> levelAt (indexOf levels name) = JStr name"
  by (auto simp: levels_def levelAt_def)

lemma indexOf_notin: "x \<notin> set xs \<Longrightarrow> indexOf xs x = - 1"
  by (induction xs) (auto simp: Let_def)

text \<open>
  C3. \<^verbatim>\<open>setLevel\<close> without an argument, or with the empty string, leaves the threshold
  as it is and returns the current level name; so does a name that is not one of the six
  levels. A name of the list sets the threshold to the index of that level, after which
  \<^verbatim>\<open>getLevel\<close> answers that name, and returns the name that was current before the call.
\<close>

theorem setLevel_contract:
  "setLevel None cur = (getLevel cur, cur) \<and>
   setLevel (Some []) cur = (getLevel cur, cur) \<and>
   (name \<notin> set levels \<longrightarrow> setLevel (Some name) cur = (getLevel cur, cur)) \<and>
   (name \<in> set levels \<longrightarrow>
      setLevel (Some name) cur = (getLevel cur, indexOf levels name) \<and>
      getLevel (indexOf levels name) = JStr name)"
proof -
  have a: "setLevel None cur = (getLevel cur, cur)" "setLevel (Some []) cur = (getLevel cur, cur)"
    by (simp_all add: setLevel_def)
  have b: "setLevel (Some name) cur = (getLevel cur, cur)" if "name \<notin> set levels"
    using indexOf_notin[OF that] by (simp add: setLevel_def Let_def)
  have c: "setLevel (Some name) cur = (getLevel cur, indexOf levels name) \<and>
      getLevel (indexOf levels name) = JStr name" if "name \<in> set levels"
  proof -
    from that have ne: "name \<noteq> []" by (auto simp: levels_def)
    from indexOf_levels_mem[OF that] ne show ?thesis
      by (simp add: setLevel_def Let_def getLevel_def)
  qed
  from a b c show ?thesis by blast
qed

theorem setLevel_contract_witness:
  "setLevel (Some ''bogus'') 3 = (JStr ''error'', 3) \<and>
   setLevel (Some ''info'') 3 = (JStr ''error'', 1) \<and>
   getLevel 1 = JStr ''info''"
  using setLevel_contract[of 3 "''bogus''"] setLevel_contract[of 3 "''info''"]
  by (simp add: levels_def getLevel_def levelAt_def)


section \<open>Properties of the string functions\<close>

text \<open>The substring test is the one of \<^verbatim>\<open>String.prototype.includes\<close>.\<close>

lemma str_includes_iff: "str_includes s sub \<longleftrightarrow> (\<exists>p q. s = p @ sub @ q)"
proof (induction s)
  case Nil
  show ?case by auto
next
  case (Cons x xs)
  show ?case
  proof
    assume "str_includes (x # xs) sub"
    then consider "prefix sub (x # xs)" | "str_includes xs sub" by auto
    then show "\<exists>p q. x # xs = p @ sub @ q"
    proof cases
      case 1
      then obtain q where "x # xs = sub @ q" by (auto simp: prefix_def)
      then have "x # xs = [] @ sub @ q" by simp
      then show ?thesis by blast
    next
      case 2
      with Cons.IH obtain p q where "xs = p @ sub @ q" by blast
      then have "x # xs = (x # p) @ sub @ q" by simp
      then show ?thesis by blast
    qed
  next
    assume "\<exists>p q. x # xs = p @ sub @ q"
    then obtain p q where pq: "x # xs = p @ sub @ q" by blast
    show "str_includes (x # xs) sub"
    proof (cases p)
      case Nil
      with pq have "prefix sub (x # xs)" by (simp add: prefix_def)
      then show ?thesis by simp
    next
      case (Cons y ys)
      with pq have "xs = ys @ sub @ q" by simp
      with Cons.IH have "str_includes xs sub" by blast
      then show ?thesis by simp
    qed
  qed
qed

section \<open>Reading records\<close>

lemma getField_update:
  "getField (AList.update k v obj) k' = (if k' = k then v else getField obj k')"
  by (simp add: getField_def update_conv')

lemma getField_delete:
  "getField (AList.delete k obj) k' = (if k' = k then JUndefined else getField obj k')"
  by (simp add: getField_def delete_conv')

lemma getField_merge:
  "getField (AList.merge a b) k = (case map_of b k of Some v \<Rightarrow> v | None \<Rightarrow> getField a k)"
  by (simp add: getField_def merge_conv' map_add_def split: option.splits)

section \<open>The steps of write\<close>

lemma write_not_object:
  "\<not> isObject d \<Longrightarrow>
   Logger_write e cur this li d r =
     (this,
      [ConsoleError (''Expecting an object in logger write method but got '' @
                     [dquote] @ typeof d @ [dquote])],
      Resolved JUndefined)"
  by (simp add: Logger_write_def)

lemma replyStep_None: "replyStep e None obj = (obj, [])"
  by (simp add: replyStep_def)

lemma replyStep_Some:
  "replyStep e (Some r) obj =
     (AList.update ''errorId'' (errorIdFor e obj) obj,
      [Reply (res r) (code r)
         (JObj [(''errorId'', errorIdFor e obj), (''success'', JBool False)])])"
  by (simp add: replyStep_def Let_def)

lemma replyStep_deliveries: "deliveries (snd (replyStep e r obj)) = []"
  by (cases r) (simp_all add: replyStep_def deliveries_def Let_def)

lemma replyStep_field:
  "k \<noteq> ''errorId'' \<Longrightarrow> getField (fst (replyStep e r obj)) k = getField obj k"
  by (cases r) (simp_all add: replyStep_def Let_def getField_update)

lemma route_single:
  "logCollector this = None \<or> isTransientTriggered this \<Longrightarrow>
   route e cur this li rec = (this, [LogSingle rec (tag this)], logSingleResult e)"
  by (auto simp: route_def split: option.splits)

lemma route_buffer:
  "logCollector this = Some c \<Longrightarrow> \<not> isTransientTriggered this \<Longrightarrow> li < cur \<Longrightarrow>
   route e cur this li rec = (this\<lparr> logCollector := Some (c @ [rec]) \<rparr>, [], Resolved JUndefined)"
  by (simp add: route_def Let_def)

lemma route_flush:
  "logCollector this = Some c \<Longrightarrow> \<not> isTransientTriggered this \<Longrightarrow> cur \<le> li \<Longrightarrow>
   route e cur this li rec =
     (this\<lparr> logCollector :=
              (case logBatchResult e of Resolved v \<Rightarrow> None | Rejected x \<Rightarrow> Some (c @ [rec])),
            isTransientTriggered := True \<rparr>,
      [LogBatch (c @ [rec]) (tag this)],
      (case logBatchResult e of Resolved v \<Rightarrow> Resolved JUndefined | Rejected x \<Rightarrow> Rejected x))"
  by (simp add: route_def Let_def split: promise.splits)

lemma write_dropped:
  "isObject d \<Longrightarrow> li < cur \<Longrightarrow> \<not> isTransient this \<Longrightarrow>
   Logger_write e cur this li d r =
     (this, snd (replyStep e r (partialRecord this d)), Resolved JUndefined)"
  by (simp add: Logger_write_def Let_def split: prod.splits)

lemma write_admitted:
  "isObject d \<Longrightarrow> cur \<le> li \<or> isTransient this \<Longrightarrow>
   normalizedRecord e this li d r = Inr rec \<Longrightarrow>
   Logger_write e cur this li d r =
     (loggerAfter (route e cur (this\<lparr> presets := presetsAfter e this d \<rparr>) li rec),
      snd (replyStep e r (partialRecord this d)) @
        effectsOf (route e cur (this\<lparr> presets := presetsAfter e this d \<rparr>) li rec),
      settledAs (route e cur (this\<lparr> presets := presetsAfter e this d \<rparr>) li rec))"
  by (auto simp: Logger_write_def normalizedRecord_def Let_def loggerAfter_def effectsOf_def
        settledAs_def split: prod.splits sum.splits)

lemma write_rejected:
  "isObject d \<Longrightarrow> cur \<le> li \<or> isTransient this \<Longrightarrow>
   normalizedRecord e this li d r = Inl x \<Longrightarrow>
   Logger_write e cur this li d r =
     (this, snd (replyStep e r (partialRecord this d)), Rejected x)"
  by (auto simp: Logger_write_def normalizedRecord_def Let_def split: prod.splits sum.splits)

lemma handedOver_same: "handedOver this (this, fx, p) = delivered fx"
  by (cases "logCollector this")
     (simp_all add: handedOver_def buffered_def effectsOf_def loggerAfter_def)

lemma delivered_replyStep: "delivered (snd (replyStep e r obj)) = []"
  by (cases r) (simp_all add: replyStep_def delivered_def Let_def)

lemma delivered_append: "delivered (xs @ ys) = delivered xs @ delivered ys"
  by (simp add: delivered_def)

lemma handedOver_route:
  "logCollector this' = logCollector this \<Longrightarrow>
   set (delivered (effectsOf (route e cur this' li rec)) @
        buffered this (loggerAfter (route e cur this' li rec))) \<subseteq> {rec}"
  by (auto simp: route_def Let_def delivered_def buffered_def effectsOf_def loggerAfter_def
      split: option.splits promise.splits)

text \<open>Whatever a call hands over is the record built for its event.\<close>

lemma handedOver_write:
  assumes "rec \<in> set (handedOver this (Logger_write e cur this li d r))"
  shows "isObject d \<and> (cur \<le> li \<or> isTransient this) \<and>
         normalizedRecord e this li d r = Inr rec"
proof -
  have obj: "isObject d"
  proof (rule ccontr)
    assume "\<not> isObject d"
    from write_not_object[OF this] assms show False
      by (simp add: handedOver_same delivered_def)
  qed
  have adm: "cur \<le> li \<or> isTransient this"
  proof (rule ccontr)
    assume "\<not> (cur \<le> li \<or> isTransient this)"
    then have "li < cur" "\<not> isTransient this" by auto
    from write_dropped[OF obj this] assms show False
      by (simp add: handedOver_same delivered_replyStep)
  qed
  show ?thesis
  proof (cases "normalizedRecord e this li d r")
    case (Inl x)
    from write_rejected[OF obj adm Inl] assms show ?thesis
      by (simp add: handedOver_same delivered_replyStep)
  next
    case (Inr rec')
    have "set (handedOver this (Logger_write e cur this li d r)) \<subseteq> {rec'}"
      using handedOver_route[of "this\<lparr> presets := presetsAfter e this d \<rparr>" this e cur li rec']
      by (simp add: write_admitted[OF obj adm Inr] handedOver_def effectsOf_def loggerAfter_def
          delivered_append delivered_replyStep)
    with assms Inr obj adm show ?thesis by auto
  qed
qed

section \<open>The steps of enrichment\<close>

lemma errStack_error: "errStack e (JError m st) = Inr (stackOfError e st)"
  by (simp add: errStack_def stackOfError_def Let_def split: option.splits)

lemma stackOfError_fresh: "stackOfError e (newErrorStack e) = freshStack e"
  by (simp add: stackOfError_def freshStack_def split: option.splits)

text \<open>The error value lines 282 to 303 work on.\<close>

lemma enrich_plain:
  assumes "\<not> truthy (getField obj ''err'')" "li < errorLevel"
  shows "enrich e li obj = Inr (AList.update ''level'' (levelAt li) obj)"
  using assms by (simp add: enrich_def Let_def getField_update)

lemma enrich_truthy:
  assumes "enrich e li obj = Inr rec" and "truthy (getField obj ''err'')"
  shows "\<exists>stack. errStack e (getField obj ''err'') = Inr stack \<and>
           getField rec ''fullStack'' = stackLines (drop 1 (split newline stack)) \<and>
           getField rec ''shortStack'' =
             stackLines (filter hasNodeModules (drop 1 (split newline stack))) \<and>
           map_of rec ''err'' = None \<and>
           getField rec ''msg'' =
             (if truthy (getField obj ''msg'') then getField obj ''msg''
              else getProp (getField obj ''err'') ''message'')"
  using assms
  by (auto simp: enrich_def Let_def getField_update getField_delete delete_conv'
      split: sum.splits if_splits)

lemma enrich_synthesized:
  assumes "enrich e li obj = Inr rec" and "errorLevel \<le> li"
    and "\<not> truthy (getField obj ''err'')"
  shows "getField rec ''fullStack'' = stackLines (drop 1 (split newline (freshStack e))) \<and>
         getField rec ''shortStack'' =
           stackLines (filter hasNodeModules (drop 1 (split newline (freshStack e)))) \<and>
         map_of rec ''err'' = None \<and>
         getField rec ''msg'' =
           (if truthy (getField obj ''msg'') then getField obj ''msg'' else JStr [])"
  using assms
  by (auto simp: enrich_def Let_def getField_update getField_delete delete_conv' errStack_error
      stackOfError_fresh split: sum.splits if_splits)

lemma enrich_other:
  assumes "enrich e li obj = Inr rec"
    and "k \<notin> {''level'', ''err'', ''fullStack'', ''shortStack'', ''msg''}"
  shows "map_of rec k = map_of obj k"
  using assms
  by (auto simp: enrich_def Let_def update_conv' delete_conv' split: sum.splits if_splits)

lemma enrich_level:
  assumes "enrich e li obj = Inr rec"
  shows "getField rec ''level'' = levelAt li"
  using assms
  by (auto simp: enrich_def Let_def getField_update getField_delete split: sum.splits if_splits)

lemma enrich_msg_kept:
  assumes "enrich e li obj = Inr rec" "truthy (getField obj ''msg'')"
  shows "getField rec ''msg'' = getField obj ''msg''"
  using assms
  by (auto simp: enrich_def Let_def getField_update getField_delete split: sum.splits if_splits)

lemma enrich_no_truthy_err:
  assumes "enrich e li obj = Inr rec"
  shows "\<not> truthy (getField rec ''err'')"
  using assms
  by (auto simp: enrich_def Let_def getField_update getField_delete split: sum.splits if_splits)

lemma enrich_err_kept:
  assumes "enrich e li obj = Inr rec" "li < errorLevel" "\<not> truthy (getField obj ''err'')"
  shows "map_of rec ''err'' = map_of obj ''err''"
  using assms by (auto simp: enrich_plain update_conv')

text \<open>Enrichment builds a record exactly on the error values described as usable.\<close>

lemma errStack_usable:
  "truthy err \<Longrightarrow> (\<exists>stack. errStack e err = Inr stack) \<longleftrightarrow> errUsable err"
  by (cases err) (auto simp: errStack_def errUsable_def Let_def split: jsval.splits option.splits)

lemma enrich_usable:
  "(\<exists>rec. enrich e li obj = Inr rec) \<longleftrightarrow> errUsable (getField obj ''err'')"
proof (cases "truthy (getField obj ''err'')")
  case True
  from errStack_usable[OF True, of e] True show ?thesis
    by (auto simp: enrich_def Let_def getField_update split: sum.splits)
next
  case False
  then show ?thesis
    by (simp add: enrich_def Let_def getField_update errStack_error errUsable_def)
qed


lemma normalizedRecord_enrich:
  assumes "normalizedRecord e this li d r = Inr rec"
  obtains enr where "enrich e li (fst (replyStep e r (partialRecord this d))) = Inr enr"
    and "\<And>k. k \<noteq> ''req'' \<Longrightarrow> map_of rec k = map_of enr k"
  using assms
  by (auto simp: normalizedRecord_def Let_def update_conv' split: sum.splits if_splits)

lemma getField_cong: "map_of a k = map_of b k \<Longrightarrow> getField a k = getField b k"
  by (simp add: getField_def)

lemmas write_defs = Logger_write_def partialRecord_def replyStep_def errorIdFor_def enrich_def errStack_def
  freshStack_def route_def create_def levelAt_def levels_def errorLevel_def parseReq_def
  hasNodeModules_def stackLines_def getField_def optStr_def newline_def dquote_def Let_def
  presetsAfter_def

section \<open>Malformed events\<close>

text \<open>
  C7. When the event handed to \<^verbatim>\<open>write\<close> is not a record-like object, the only thing the
  call does is to print one line on the fallback channel \<^verbatim>\<open>console.error\<close>: there is no
  delivery, the logger is left as it was, and the promise resolves (with no value) rather
  than rejecting. This holds at every level, for every threshold, with or without a
  response wrapper.
\<close>

theorem malformed_event_reported:
  assumes "\<not> isObject logData"
  shows "effectsOf (Logger_write e cur this levelIndex logData response) =
           [ConsoleError (''Expecting an object in logger write method but got '' @
                          [dquote] @ typeof logData @ [dquote])] \<and>
         deliveries (effectsOf (Logger_write e cur this levelIndex logData response)) = [] \<and>
         settledAs (Logger_write e cur this levelIndex logData response) = Resolved JUndefined \<and>
         loggerAfter (Logger_write e cur this levelIndex logData response) = this"
  using assms
  by (simp add: write_not_object effectsOf_def settledAs_def loggerAfter_def deliveries_def)

theorem malformed_event_reported_witness:
  "\<not> isObject (JStr ''oops'') \<and>
   effectsOf (Logger_write env0 3 plainLogger 4 (JStr ''oops'') None) =
     [ConsoleError (''Expecting an object in logger write method but got '' @
                    [dquote] @ ''string'' @ [dquote])] \<and>
   settledAs (Logger_write env0 3 plainLogger 4 (JStr ''oops'') None) = Resolved JUndefined"
  using malformed_event_reported[of "JStr ''oops''" env0 3 plainLogger 4 None]
  by simp

text \<open>
  C10. When the event is not a record-like object and a response wrapper is supplied,
  nothing is sent to the wrapper's target, and no \<^verbatim>\<open>errorId\<close> is generated: the call
  does not depend on what \<^verbatim>\<open>uuid.v4()\<close> would have returned, and its only effect is the
  line on \<^verbatim>\<open>console.error\<close>. The validation returns before the reply step.
\<close>

theorem malformed_event_no_reply:
  assumes "\<not> isObject logData"
  shows "replies (effectsOf (Logger_write e cur this levelIndex logData (Some wrapper))) = [] \<and>
         (\<forall>x \<in> set (effectsOf (Logger_write e cur this levelIndex logData (Some wrapper))).
            \<exists>line. x = ConsoleError line) \<and>
         Logger_write (e\<lparr> v4 := u \<rparr>) cur this levelIndex logData (Some wrapper) =
           Logger_write e cur this levelIndex logData (Some wrapper)"
  using assms
  by (simp add: write_not_object effectsOf_def replies_def)

theorem malformed_event_no_reply_witness:
  "\<not> isObject JNull \<and>
   replies (effectsOf (Logger_write env0 3 plainLogger 3 JNull
                         (Some \<lparr> res = 7, code = 500 \<rparr>))) = []"
  using malformed_event_no_reply[of JNull env0 3 plainLogger 3 "\<lparr> res = 7, code = 500 \<rparr>"]
  by simp


section \<open>Formatting a duration\<close>

lemma length_pad: "length (pad w n) = w"
  by (induction w arbitrary: n) auto

lemma pad_2: "pad 2 n = [digit (n div 10), digit n]"
  by (simp add: numeral_2_eq_2)

lemma pad_3: "pad 3 n = pad 2 (n div 10) @ [digit n]"
  by (simp add: numeral_3_eq_3 numeral_2_eq_2)

lemma pad_4: "pad 4 n = pad 3 (n div 10) @ [digit n]"
proof -
  have "(4::nat) = Suc 3" by simp
  then show ?thesis by (simp only: pad.simps)
qed

lemma pad_6: "pad 6 n = pad 4 (n div 10 div 10) @ [digit (n div 10), digit n]"
proof -
  have "(6::nat) = Suc (Suc 4)" by simp
  then show ?thesis by (simp only: pad.simps append.simps append_assoc)
qed

lemma floor_bounds: "k * (x div k) \<le> x \<and> x < k * (x div k) + k" if "0 < k" for x k :: int
proof -
  have "x = k * (x div k) + x mod k" by simp
  moreover have "0 \<le> x mod k" "x mod k < k" using that by simp_all
  ultimately show ?thesis by linarith
qed

lemma floor_4: "4 * (x div 4) \<le> x" "x < 4 * (x div 4) + 4" for x :: int
  using floor_bounds[of 4 x] by simp_all

lemma floor_100: "100 * (x div 100) \<le> x" "x < 100 * (x div 100) + 100" for x :: int
  using floor_bounds[of 100 x] by simp_all

lemma floor_400: "400 * (x div 400) \<le> x" "x < 400 * (x div 400) + 400" for x :: int
  using floor_bounds[of 400 x] by simp_all

lemma year_lower_step:
  assumes "4 * a \<le> q" "q + 68 < 100 * b + 100" "400 * c \<le> q + 368" "146097 * q \<le> 400 * day"
  shows "365 * (q - 1) + a - b + c \<le> (day::int)"
proof -
  have "146000 * q - 146000 + 400 * a - 400 * b + 400 * c \<le> d4" if "146097 * q \<le> d4"
    for d4 :: int
    using that assms(1,2,3) by linarith
  from this[OF assms(4)] have "400 * (365 * (q - 1) + a - b + c) \<le> 400 * day"
    by (simp add: algebra_simps)
  then show ?thesis by simp
qed

lemma year_upper_step:
  assumes "q + 3 < 4 * a + 4" "100 * b \<le> q + 71" "q + 371 < 400 * c + 400"
    "400 * day < 146097 * q + 146097"
  shows "(day::int) < 365 * (q + 2) + a - b + c"
proof -
  have "d4 < 146000 * q + 292000 + 400 * a - 400 * b + 400 * c" if "d4 < 146097 * q + 146097"
    for d4 :: int
    using that assms(1,2,3) by linarith
  from this[OF assms(4)] have "400 * day < 400 * (365 * (q + 2) + a - b + c)"
    by (simp add: algebra_simps)
  then show ?thesis by simp
qed

text \<open>The year of a day is the one the ECMAScript specification asks for.\<close>

lemma YearFromDay_spec:
  "DayFromYear (YearFromDay day) \<le> day \<and> day < DayFromYear (YearFromDay day + 1)"
proof -
  define q where "q = (day * 400) div 146097"
  have q1: "146097 * q \<le> 400 * day" and q2: "400 * day < 146097 * q + 146097"
    using floor_bounds[of 146097 "day * 400"] unfolding q_def by simp_all
  have lo: "DayFromYear (1970 + q - 1) \<le> day"
  proof -
    have "DayFromYear (1970 + q - 1) =
            365 * (q - 1) + q div 4 - (q + 68) div 100 + (q + 368) div 400"
      by (simp add: DayFromYear_def add.commute)
    also have "\<dots> \<le> day"
      by (rule year_lower_step[OF floor_4(1) floor_100(2) floor_400(1) q1])
    finally show ?thesis .
  qed
  have hi: "day < DayFromYear (1970 + q + 2)"
  proof -
    have "day < 365 * (q + 2) + (q + 3) div 4 - (q + 71) div 100 + (q + 371) div 400"
      by (rule year_upper_step[OF floor_4(2) floor_100(1) floor_400(2) q2])
    also have "\<dots> = DayFromYear (1970 + q + 2)"
      by (simp add: DayFromYear_def add.commute)
    finally show ?thesis .
  qed
  have "YearFromDay day =
          (if DayFromYear (1970 + q + 1) \<le> day then 1970 + q + 1
           else if DayFromYear (1970 + q) \<le> day then 1970 + q else 1970 + q - 1)"
    by (simp add: YearFromDay_def Let_def q_def)
  with lo hi show ?thesis
    by (auto simp: algebra_simps)
qed

text \<open>Days \<open>-719528\<close> to \<open>2932896\<close> are the days of the years 0 to 9999.\<close>

lemma year_range:
  assumes "- 719528 \<le> day" "day < 2932897"
  shows "0 \<le> YearFromDay day \<and> YearFromDay day \<le> 9999"
proof -
  define y0 where "y0 = 1970 + (day * 400) div 146097"
  have "(- 287811200) div 146097 \<le> (day * 400) div 146097"
    by (rule zdiv_mono1) (use assms in auto)
  then have lo: "- 1 \<le> y0" unfolding y0_def by simp
  have "(day * 400) div 146097 \<le> 1173158400 div 146097"
    by (rule zdiv_mono1) (use assms in auto)
  then have hi: "y0 \<le> 9999" unfolding y0_def by simp
  have top: "\<not> DayFromYear (y0 + 1) \<le> day" if "y0 = 9999"
    using assms that by (simp add: DayFromYear_def)
  have bot: "DayFromYear (y0 + 1) \<le> day" if "y0 = - 1"
    using assms that by (simp add: DayFromYear_def)
  have bot0: "DayFromYear y0 \<le> day" if "y0 = 0"
    using assms that by (simp add: DayFromYear_def)
  have "YearFromDay day =
          (if DayFromYear (y0 + 1) \<le> day then y0 + 1
           else if DayFromYear y0 \<le> day then y0 else y0 - 1)"
    by (simp add: YearFromDay_def Let_def y0_def)
  with lo hi top bot bot0 show ?thesis
    by (cases "y0 = 9999"; cases "y0 = - 1"; cases "y0 = 0") auto
qed

lemma isoDate_length:
  assumes "- 62167219200000 \<le> t" "t < 253402300800000"
  shows "length (isoDate t) = 10"
proof -
  have "- 62167219200000 div 86400000 \<le> t div 86400000"
    by (rule zdiv_mono1) (use assms in auto)
  then have lo: "- 719528 \<le> t div msPerDay" by (simp add: msPerDay_def)
  have "t div 86400000 \<le> 253402300799999 div 86400000"
    by (rule zdiv_mono1) (use assms in auto)
  then have hi: "t div msPerDay < 2932897" by (simp add: msPerDay_def)
  from year_range[OF lo hi] show ?thesis
    by (simp add: isoDate_def Let_def isoYear_def length_pad)
qed

text \<open>The fields of a time value add up to it.\<close>

lemma time_fields:
  "MakeDate (Day t) (MakeTime (HourFromTime t) (MinFromTime t) (SecFromTime t) ms) =
     t - msFromTime t + ms"
proof -
  define a where "a = t div 1000"
  define b where "b = a div 60"
  define c where "c = b div 60"
  have b': "t div 60000 = b"
    using zdiv_zmult2_eq[of 60 t 1000] by (simp add: a_def b_def)
  have c': "t div 3600000 = c"
    using zdiv_zmult2_eq[of 60 "t div 1000" 60] zdiv_zmult2_eq[of 3600 t 1000]
    by (simp add: a_def b_def c_def)
  have d': "t div 86400000 = c div 24"
    using zdiv_zmult2_eq[of 24 t 3600000] by (simp add: c')
  have 1: "t = 1000 * a + t mod 1000" by (simp add: a_def)
  have 2: "a = 60 * b + a mod 60" by (simp add: b_def)
  have 3: "b = 60 * c + b mod 60" by (simp add: c_def)
  have 4: "c = 24 * (c div 24) + c mod 24" by simp
  have "c div 24 * 86400000 + (c mod 24 * 3600000 + b mod 60 * 60000 + a mod 60 * 1000 + ms) =
          t - t mod 1000 + ms"
    using 1 2 3 4 by linarith
  then show ?thesis
    by (simp add: MakeDate_def MakeTime_def Day_def msPerDay_def HourFromTime_def MinFromTime_def
        SecFromTime_def msFromTime_def b' c' d' a_def[symmetric])
qed

text \<open>
  Where the offset of the zone is a whole number of seconds and is the same at the epoch
  and at the local time that is set, \<^verbatim>\<open>setMilliseconds\<close> on the date of the epoch gives the
  time value \<open>ms\<close>.
\<close>

lemma setMilliseconds_steady:
  assumes "offsetAtUTC tz 0 mod 1000 = 0"
    and "offsetAtLocal tz (offsetAtUTC tz 0 + ms) = offsetAtUTC tz 0"
  shows "setMilliseconds tz 0 ms = TimeClip ms"
  using assms by (simp add: setMilliseconds_def Let_def LocalTime_def UTC_def time_fields msFromTime_def)

lemma length_isoTime: "length (isoTime t) = 12"
  by (simp add: isoTime_def length_pad)

lemma substr_iso:
  "length (isoDate t) = 10 \<Longrightarrow> substr (isoDate t @ CHR ''T'' # isoTime t @ ''Z'') 11 12 = isoTime t"
  using length_isoTime[of t] by (simp add: substr_def)

lemma formatMilliseconds_in_range:
  assumes "offsetAtUTC tz 0 mod 1000 = 0"
    and "offsetAtLocal tz (offsetAtUTC tz 0 + ms) = offsetAtUTC tz 0"
    and "- 62167219200000 \<le> ms" "ms < 253402300800000"
  shows "formatMilliseconds tz ms = Inr (isoTime ms)"
proof -
  have ok: "TimeClip ms = Some ms" using assms(3,4) by (simp add: TimeClip_def)
  show ?thesis
    by (simp add: formatMilliseconds_def toISOString_def setMilliseconds_steady[OF assms(1,2)] ok
        substr_iso[OF isoDate_length[OF assms(3,4)]])
qed

text \<open>The first instant of the year 10000, where the ISO string changes shape.\<close>

lemma isoDate_year_10000: "isoDate 253402300800000 = ''+010000-01-01''"
proof -
  have y: "YearFromDay 2932897 = 10000"
    by (simp add: YearFromDay_def DayFromYear_def)
  have d: "DayFromYear 10000 = 2932897" "InLeapYear 10000"
    by (simp_all add: InLeapYear_def DayFromYear_def)
  have s: "isoYear 10000 = ''+010000''"
    by (simp add: isoYear_def pad_6 pad_4 pad_3 pad_2 digit_def)
  have m: "MonthFromDay True 0 = 0" "DateFromDay True 0 = 1"
    by (simp_all add: MonthFromDay_def DateFromDay_def monthEnds_def)
  show ?thesis
    by (simp add: isoDate_def msPerDay_def y d s m pad_2 digit_def)
qed

lemma isoTime_year_10000: "isoTime 253402300800000 = ''00:00:00.000''"
  by (simp add: isoTime_def HourFromTime_def MinFromTime_def SecFromTime_def msFromTime_def
      pad_2 pad_3 digit_def)

lemma setMilliseconds_utc: "setMilliseconds utcZone 0 ms = TimeClip ms"
  by (rule setMilliseconds_steady) (simp_all add: utcZone_def)

lemma formatMilliseconds_invalid_date:
  "formatMilliseconds utcZone 8640000000000001 = Inl RangeError"
  by (simp add: formatMilliseconds_def toISOString_def setMilliseconds_utc TimeClip_def)

text \<open>
  On a host with daylight saving time the offset at the local time that is set need not be
  the one of the epoch. In New York the epoch is in winter and a count of 180 days ends in
  summer: the time value is an hour short of the count.
\<close>

lemma setMilliseconds_dst: "setMilliseconds newYork1970 0 15552000000 = Some 15548400000"
  by (simp add: setMilliseconds_def Let_def LocalTime_def UTC_def time_fields msFromTime_def
      newYork1970_def TimeClip_def)

lemma formatMilliseconds_dst: "formatMilliseconds newYork1970 15552000000 = Inr ''23:00:00.000''"
proof -
  have l: "length (isoDate 15548400000) = 10"
    by (rule isoDate_length) simp_all
  have t: "isoTime 15548400000 = ''23:00:00.000''"
    by (simp add: isoTime_def HourFromTime_def MinFromTime_def SecFromTime_def msFromTime_def
        pad_2 pad_3 digit_def)
  show ?thesis
    by (simp add: formatMilliseconds_def toISOString_def setMilliseconds_dst substr_iso[OF l])
       (rule t)
qed

lemma formatMilliseconds_utc_year_10000:
  "formatMilliseconds utcZone 253402300800000 = Inr ''01T00:00:00.''"
  by (simp add: formatMilliseconds_def toISOString_def setMilliseconds_utc TimeClip_def
      isoDate_year_10000 isoTime_year_10000 substr_def)

text \<open>
  C9, as stated: \<^verbatim>\<open>formatMilliseconds\<close> renders a millisecond count as a 12-character
  hours:minutes:seconds.milliseconds string. It does not for every count, even on a host
  in UTC: from 253402300800000 on (the year 10000) the ISO string starts with a sign and a
  six-digit year, and the twelve characters from position 11 are the day of the month,
  \<open>T\<close> and the time cut after the seconds. Nor does it on every host: in New York a count
  of exactly 180 days (4320 hours, no minute, no second) is rendered as \<open>23:00:00.000\<close>.
\<close>

theorem formatMilliseconds_counterexample:
  "formatMilliseconds utcZone 253402300800000 = Inr ''01T00:00:00.'' \<and>
   formatMilliseconds newYork1970 15552000000 = Inr ''23:00:00.000''"
  by (simp add: formatMilliseconds_utc_year_10000 formatMilliseconds_dst)

text \<open>
  C9, amended. On a host whose time zone offset is a whole number of seconds and is the
  same at the epoch and at the local time the count leads to (a host in UTC is one, for
  every count), and for a millisecond count from -62167219200000 to 253402300799999 (the
  time values whose ISO year has four digits), \<^verbatim>\<open>formatMilliseconds\<close> returns, without
  throwing, the 12-character string hours:minutes:seconds.milliseconds counted from the
  zero time origin, with the hours taken modulo 24 (whole days are dropped): two digits of
  hours, of minutes and of seconds and three of milliseconds. In particular
  \<^verbatim>\<open>formatMilliseconds(65005)\<close> is \<^verbatim>\<open>"00:01:05.005"\<close> on such a host. What the function
  returns where the offset changes on the way is not part of the statement.
\<close>

theorem formatMilliseconds_clock:
  "(offsetAtUTC tz 0 mod 1000 = 0 \<and>
    offsetAtLocal tz (offsetAtUTC tz 0 + ms) = offsetAtUTC tz 0 \<and>
    - 62167219200000 \<le> ms \<and> ms < 253402300800000 \<longrightarrow>
      formatMilliseconds tz ms =
        Inr (pad 2 (nat (ms div 3600000 mod 24)) @ '':'' @
             pad 2 (nat (ms div 60000 mod 60)) @ '':'' @
             pad 2 (nat (ms div 1000 mod 60)) @ ''.'' @
             pad 3 (nat (ms mod 1000))) \<and>
      (\<forall>s. formatMilliseconds tz ms = Inr s \<longrightarrow> length s = 12)) \<and>
   (offsetAtUTC tz 0 mod 1000 = 0 \<and>
    offsetAtLocal tz (offsetAtUTC tz 0 + 65005) = offsetAtUTC tz 0 \<longrightarrow>
      formatMilliseconds tz 65005 = Inr ''00:01:05.005'')"
proof -
  have a: "formatMilliseconds tz ms =
        Inr (pad 2 (nat (ms div 3600000 mod 24)) @ '':'' @
             pad 2 (nat (ms div 60000 mod 60)) @ '':'' @
             pad 2 (nat (ms div 1000 mod 60)) @ ''.'' @
             pad 3 (nat (ms mod 1000)))"
    if "offsetAtUTC tz 0 mod 1000 = 0"
      and "offsetAtLocal tz (offsetAtUTC tz 0 + ms) = offsetAtUTC tz 0"
      and "- 62167219200000 \<le> ms" "ms < 253402300800000" for ms
    using formatMilliseconds_in_range[OF that]
    by (simp add: isoTime_def HourFromTime_def MinFromTime_def SecFromTime_def msFromTime_def)
  have b: "\<forall>s. formatMilliseconds tz ms = Inr s \<longrightarrow> length s = 12"
    if "offsetAtUTC tz 0 mod 1000 = 0"
      and "offsetAtLocal tz (offsetAtUTC tz 0 + ms) = offsetAtUTC tz 0"
      and "- 62167219200000 \<le> ms" "ms < 253402300800000"
    using a[OF that] by (simp add: length_pad)
  have c: "formatMilliseconds tz 65005 = Inr ''00:01:05.005''"
    if "offsetAtUTC tz 0 mod 1000 = 0"
      and "offsetAtLocal tz (offsetAtUTC tz 0 + 65005) = offsetAtUTC tz 0"
    using a[OF that] by (simp add: digit_def pad_2 pad_3)
  show ?thesis
  proof (intro conjI impI)
    assume h: "offsetAtUTC tz 0 mod 1000 = 0 \<and>
      offsetAtLocal tz (offsetAtUTC tz 0 + ms) = offsetAtUTC tz 0 \<and>
      - 62167219200000 \<le> ms \<and> ms < 253402300800000"
    then show "formatMilliseconds tz ms =
        Inr (pad 2 (nat (ms div 3600000 mod 24)) @ '':'' @
             pad 2 (nat (ms div 60000 mod 60)) @ '':'' @
             pad 2 (nat (ms div 1000 mod 60)) @ ''.'' @
             pad 3 (nat (ms mod 1000)))"
      by (intro a) simp_all
    from h show "\<forall>s. formatMilliseconds tz ms = Inr s \<longrightarrow> length s = 12"
      by (intro b) simp_all
  next
    assume "offsetAtUTC tz 0 mod 1000 = 0 \<and>
      offsetAtLocal tz (offsetAtUTC tz 0 + 65005) = offsetAtUTC tz 0"
    then show "formatMilliseconds tz 65005 = Inr ''00:01:05.005''"
      by (intro c) simp_all
  qed
qed

theorem formatMilliseconds_clock_witness:
  "offsetAtUTC utcZone 0 mod 1000 = 0 \<and>
   offsetAtLocal utcZone (offsetAtUTC utcZone 0 + 3723004) = offsetAtUTC utcZone 0 \<and>
   - 62167219200000 \<le> (3723004::int) \<and> (3723004::int) < 253402300800000 \<and>
   formatMilliseconds utcZone 3723004 = Inr ''01:02:03.004'' \<and>
   formatMilliseconds utcZone 65005 = Inr ''00:01:05.005'' \<and>
   offsetAtUTC newYork1970 0 mod 1000 = 0 \<and>
   offsetAtLocal newYork1970 (offsetAtUTC newYork1970 0 + 65005) = offsetAtUTC newYork1970 0 \<and>
   formatMilliseconds newYork1970 65005 = Inr ''00:01:05.005''"
  using formatMilliseconds_clock[of utcZone 3723004] formatMilliseconds_clock[of newYork1970 0]
  by (simp add: digit_def pad_2 pad_3 utcZone_def newYork1970_def)


section \<open>Error enrichment\<close>




section \<open>The reply\<close>

lemma replies_replyStep_Some:
  "replies (snd (replyStep e (Some r) obj)) =
     [Reply (res r) (code r) (JObj [(''errorId'', errorIdFor e obj), (''success'', JBool False)])]"
  by (simp add: replyStep_Some replies_def)

lemma replies_route: "replies (effectsOf (route e cur this li rec)) = []"
  by (simp add: route_def Let_def replies_def effectsOf_def split: option.splits promise.splits)

lemma replies_append: "replies (xs @ ys) = replies xs @ replies ys"
  by (simp add: replies_def)

lemma errorId_replyStep_Some:
  "getField (fst (replyStep e (Some r) obj)) ''errorId'' = errorIdFor e obj"
  by (simp add: replyStep_Some getField_update)

text \<open>
  C5, as stated: every call of \<^verbatim>\<open>write\<close> with a response wrapper sends exactly one reply.
  A call whose event is not a record-like object returns at the validation of line 241,
  before the reply step, and sends none.
\<close>

theorem reply_not_sent_for_malformed_event:
  "replies (effectsOf (Logger_write env0 3 plainLogger 3 (JStr ''oops'') (Some wrapper500))) = []"
  by (simp add: Logger_write_def effectsOf_def replies_def)

text \<open>
  C5, amended. For every call of \<^verbatim>\<open>write\<close> whose event is a record-like object and that
  comes with a response wrapper, whatever the level and the threshold: exactly one reply
  goes to the wrapper's target, with the wrapper's status code and the payload
  \<^verbatim>\<open>{errorId, success: false}\<close>; the \<^verbatim>\<open>errorId\<close> is the (truthy) one of the partial record
  when it has one and a freshly generated one otherwise; and every record the call hands
  over carries that \<^verbatim>\<open>errorId\<close>.
\<close>

theorem reply_side_effect:
  assumes "isObject logData"
  shows "replies (effectsOf (Logger_write e cur this levelIndex logData (Some wrapper))) =
           [Reply (res wrapper) (code wrapper)
              (JObj [(''errorId'', errorIdFor e (partialRecord this logData)),
                     (''success'', JBool False)])] \<and>
         errorIdFor e (partialRecord this logData) =
           (if truthy (getField (partialRecord this logData) ''errorId'')
            then getField (partialRecord this logData) ''errorId'' else JStr (v4 e)) \<and>
         (\<forall>rec \<in> set (handedOver this (Logger_write e cur this levelIndex logData (Some wrapper))).
            getField rec ''errorId'' = errorIdFor e (partialRecord this logData))"
proof -
  let ?W = "Logger_write e cur this levelIndex logData (Some wrapper)"
  let ?p = "partialRecord this logData"
  have r: "replies (effectsOf ?W) =
             [Reply (res wrapper) (code wrapper)
                (JObj [(''errorId'', errorIdFor e ?p), (''success'', JBool False)])]"
  proof (cases "cur \<le> levelIndex \<or> isTransient this")
    case False
    then have "levelIndex < cur" "\<not> isTransient this" by auto
    from write_dropped[OF assms this] show ?thesis
      by (simp add: effectsOf_def replies_replyStep_Some)
  next
    case True
    show ?thesis
    proof (cases "normalizedRecord e this levelIndex logData (Some wrapper)")
      case (Inl x)
      from write_rejected[OF assms True Inl] show ?thesis
        by (simp add: effectsOf_def replies_replyStep_Some)
    next
      case (Inr rec)
      have "effectsOf ?W =
              snd (replyStep e (Some wrapper) ?p) @
              effectsOf (route e cur (this\<lparr> presets := presetsAfter e this logData \<rparr>)
                           levelIndex rec)"
        by (simp add: write_admitted[OF assms True Inr] effectsOf_def)
      then show ?thesis
        by (simp add: replies_append replies_replyStep_Some replies_route)
    qed
  qed
  have h: "getField rec ''errorId'' = errorIdFor e ?p" if "rec \<in> set (handedOver this ?W)" for rec
  proof -
    from handedOver_write[OF that]
    have nr: "normalizedRecord e this levelIndex logData (Some wrapper) = Inr rec" by simp
    from normalizedRecord_enrich[OF nr] obtain enr
      where enr: "enrich e levelIndex (fst (replyStep e (Some wrapper) ?p)) = Inr enr"
        and same: "\<And>k. k \<noteq> ''req'' \<Longrightarrow> map_of rec k = map_of enr k"
      by blast
    have "getField rec ''errorId'' = getField enr ''errorId''"
      by (rule getField_cong) (simp add: same)
    also have "\<dots> = getField (fst (replyStep e (Some wrapper) ?p)) ''errorId''"
      by (rule getField_cong) (simp add: enrich_other[OF enr])
    finally show ?thesis by (simp add: errorId_replyStep_Some)
  qed
  from r h show ?thesis by (simp add: errorIdFor_def)
qed

theorem reply_side_effect_witness:
  "isObject plainEvent \<and>
   replies (effectsOf (Logger_write env0 3 plainLogger 1 plainEvent (Some wrapper500))) =
     [Reply 7 500 (JObj [(''errorId'', JStr ''0b1c2d3e''), (''success'', JBool False)])] \<and>
   deliveries (effectsOf (Logger_write env0 3 plainLogger 1 plainEvent (Some wrapper500))) = [] \<and>
   replies (effectsOf (Logger_write env0 3 plainLogger 3 plainEvent (Some wrapper500))) =
     [Reply 7 500 (JObj [(''errorId'', JStr ''0b1c2d3e''), (''success'', JBool False)])] \<and>
   repliedRecord \<in> set (handedOver plainLogger
                           (Logger_write env0 3 plainLogger 3 plainEvent (Some wrapper500))) \<and>
   getField repliedRecord ''errorId'' = JStr ''0b1c2d3e''"
proof -
  have o: "isObject plainEvent" by (simp add: plainEvent_def)
  have i: "errorIdFor env0 (partialRecord plainLogger plainEvent) = JStr ''0b1c2d3e''"
    by (simp add: write_defs env0_def plainLogger_def plainEvent_def)
  have w1: "Logger_write env0 3 plainLogger 1 plainEvent (Some wrapper500) =
              (plainLogger,
               [Reply 7 500 (JObj [(''errorId'', JStr ''0b1c2d3e''), (''success'', JBool False)])],
               Resolved JUndefined)"
    by (simp add: write_defs env0_def plainLogger_def plainEvent_def wrapper500_def)
  have w3: "Logger_write env0 3 plainLogger 3 plainEvent (Some wrapper500) =
              (plainLogger,
               [Reply 7 500 (JObj [(''errorId'', JStr ''0b1c2d3e''), (''success'', JBool False)]),
                LogSingle repliedRecord ''svc-test''],
               Resolved JUndefined)"
    by (simp add: write_defs env0_def plainLogger_def plainEvent_def wrapper500_def
        repliedRecord_def)
  have h: "repliedRecord \<in> set (handedOver plainLogger
                           (Logger_write env0 3 plainLogger 3 plainEvent (Some wrapper500)))"
    by (simp add: w3 handedOver_same delivered_def)
  have d: "deliveries (effectsOf (Logger_write env0 3 plainLogger 1 plainEvent (Some wrapper500))) = []"
    by (simp add: w1 effectsOf_def deliveries_def)
  from reply_side_effect[OF o, of env0 3 plainLogger 1 wrapper500]
    reply_side_effect[OF o, of env0 3 plainLogger 3 wrapper500] h i d o
  show ?thesis by (simp add: wrapper500_def)
qed


section \<open>The merge of presets and event\<close>

lemma partialRecord_map:
  "map_of (partialRecord this d) k =
     (if k = ''req'' then map_of (presets this) k
      else (case map_of (ownEntries d) k of
              Some v \<Rightarrow> Some v
            | None \<Rightarrow> map_of (presets this) k))"
  by (simp add: partialRecord_def Let_def merge_conv' map_add_def delete_conv'
      split: option.splits)

lemma replyStep_map:
  "k \<noteq> ''errorId'' \<Longrightarrow> map_of (fst (replyStep e r obj)) k = map_of obj k"
  by (cases r) (simp_all add: replyStep_def Let_def update_conv')

lemma normalizedRecord_other:
  assumes "normalizedRecord e this li d r = Inr rec"
    and "k \<notin> {''level'', ''err'', ''fullStack'', ''shortStack'', ''msg'', ''errorId'', ''req''}"
  shows "map_of rec k = map_of (partialRecord this d) k"
proof -
  from normalizedRecord_enrich[OF assms(1)] obtain enr
    where enr: "enrich e li (fst (replyStep e r (partialRecord this d))) = Inr enr"
      and same: "\<And>k. k \<noteq> ''req'' \<Longrightarrow> map_of rec k = map_of enr k"
    by blast
  from assms(2) have "map_of rec k = map_of enr k" by (simp add: same)
  also from assms(2) have "\<dots> = map_of (fst (replyStep e r (partialRecord this d))) k"
    by (intro enrich_other[OF enr]) simp
  also from assms(2) have "\<dots> = map_of (partialRecord this d) k"
    by (simp add: replyStep_map)
  finally show ?thesis .
qed

text \<open>
  C6, as stated: for a key present in both the presets and the event, the delivered record
  carries the preset's value. The logger below has the preset \<^verbatim>\<open>module: "api"\<close> and the
  event says \<^verbatim>\<open>module: "billing"\<close>; the partial record and the delivered record say
  \<^verbatim>\<open>"billing"\<close>.
\<close>

theorem event_fields_win_counterexample:
  "map_of (presets plainLogger) ''module'' = Some (JStr ''api'') \<and>
   map_of (ownEntries overrideEvent) ''module'' = Some (JStr ''billing'') \<and>
   map_of (partialRecord plainLogger overrideEvent) ''module'' = Some (JStr ''billing'') \<and>
   effectsOf (Logger_write env0 3 plainLogger 3 overrideEvent None) =
     [LogSingle overrideRecord ''svc-test''] \<and>
   map_of overrideRecord ''module'' = Some (JStr ''billing'') \<and>
   map_of overrideRecord ''module'' \<noteq> map_of (presets plainLogger) ''module''"
  by (simp add: write_defs effectsOf_def env0_def plainLogger_def overrideEvent_def
      overrideRecord_def)

text \<open>
  C6, amended. The partial record is the presets with the event fields other than \<^verbatim>\<open>req\<close>
  spread over them: a key of the event (other than \<^verbatim>\<open>req\<close>) has the event's value in it,
  any other key the preset's. So for every key present in both the presets and the event,
  the partial record carries the event's value, and so does every record the call hands
  over when the key is not one of those \<^verbatim>\<open>write\<close> sets afterwards (\<^verbatim>\<open>level\<close>, \<^verbatim>\<open>err\<close>,
  \<^verbatim>\<open>fullStack\<close>, \<^verbatim>\<open>shortStack\<close>, \<^verbatim>\<open>msg\<close>, \<^verbatim>\<open>errorId\<close>).
\<close>

theorem event_fields_win:
  "map_of (partialRecord this logData) k =
     (if k = ''req'' then map_of (presets this) k
      else (case map_of (ownEntries logData) k of
              Some v \<Rightarrow> Some v
            | None \<Rightarrow> map_of (presets this) k)) \<and>
   (map_of (ownEntries logData) k = Some v \<and>
    k \<notin> {''level'', ''err'', ''fullStack'', ''shortStack'', ''msg'', ''errorId'', ''req''} \<longrightarrow>
      (\<forall>rec \<in> set (handedOver this (Logger_write e cur this levelIndex logData response)).
         map_of rec k = Some v))"
proof -
  have "map_of rec k = Some v"
    if "map_of (ownEntries logData) k = Some v"
      and "k \<notin> {''level'', ''err'', ''fullStack'', ''shortStack'', ''msg'', ''errorId'', ''req''}"
      and "rec \<in> set (handedOver this (Logger_write e cur this levelIndex logData response))"
    for rec
  proof -
    from handedOver_write[OF that(3)]
    have "normalizedRecord e this levelIndex logData response = Inr rec" by simp
    from normalizedRecord_other[OF this that(2)] that(1,2) show ?thesis
      by (simp add: partialRecord_map)
  qed
  then show ?thesis by (simp add: partialRecord_map)
qed

theorem event_fields_win_witness:
  "map_of (ownEntries overrideEvent) ''module'' = Some (JStr ''billing'') \<and>
   overrideRecord \<in> set (handedOver plainLogger
                            (Logger_write env0 3 plainLogger 3 overrideEvent None)) \<and>
   map_of overrideRecord ''module'' = Some (JStr ''billing'')"
proof -
  have w: "Logger_write env0 3 plainLogger 3 overrideEvent None =
             (plainLogger, [LogSingle overrideRecord ''svc-test''], Resolved JUndefined)"
    by (simp add: write_defs env0_def plainLogger_def overrideEvent_def overrideRecord_def)
  have h: "overrideRecord \<in> set (handedOver plainLogger
                            (Logger_write env0 3 plainLogger 3 overrideEvent None))"
    by (simp add: w handedOver_same delivered_def)
  have m: "map_of (ownEntries overrideEvent) ''module'' = Some (JStr ''billing'')"
    by (simp add: overrideEvent_def)
  from event_fields_win[of plainLogger overrideEvent "''module''" "JStr ''billing''"
      env0 3 3 None] h m
  show ?thesis by simp
qed


section \<open>The threshold on a logger that is not transient\<close>

lemma deliveries_append: "deliveries (xs @ ys) = deliveries xs @ deliveries ys"
  by (simp add: deliveries_def)

text \<open>A record is built exactly for the usable error values.\<close>

lemma normalizedRecord_usable:
  "(\<exists>rec. normalizedRecord e this li d r = Inr rec) \<longleftrightarrow>
     errUsable (getField (partialRecord this d) ''err'')"
proof -
  have "(\<exists>rec. normalizedRecord e this li d r = Inr rec) \<longleftrightarrow>
          (\<exists>enr. enrich e li (fst (replyStep e r (partialRecord this d))) = Inr enr)"
    by (auto simp: normalizedRecord_def Let_def split: sum.splits)
  then show ?thesis by (simp add: enrich_usable replyStep_field)
qed

lemma enrichable_normalized:
  assumes "enrichable this d"
  shows "\<exists>rec. normalizedRecord e this li d r = Inr rec"
  using assms by (simp add: enrichable_def normalizedRecord_usable)

lemma normalizedRecord_err:
  assumes "normalizedRecord e this li d r = Inr rec"
  shows "\<not> truthy (getField rec ''err'')"
    and "errorLevel \<le> li \<or> truthy (getField (partialRecord this d) ''err'') \<Longrightarrow>
           map_of rec ''err'' = None"
    and "li < errorLevel \<Longrightarrow> \<not> truthy (getField (partialRecord this d) ''err'') \<Longrightarrow>
           map_of rec ''err'' = map_of (partialRecord this d) ''err''"
proof -
  let ?obj = "fst (replyStep e r (partialRecord this d))"
  from normalizedRecord_enrich[OF assms] obtain enr
    where enr: "enrich e li ?obj = Inr enr"
      and same: "\<And>k. k \<noteq> ''req'' \<Longrightarrow> map_of rec k = map_of enr k"
    by blast
  have s: "map_of rec ''err'' = map_of enr ''err''" by (simp add: same)
  have err: "getField ?obj ''err'' = getField (partialRecord this d) ''err''"
    by (simp add: replyStep_field)
  have merr: "map_of ?obj ''err'' = map_of (partialRecord this d) ''err''"
    by (simp add: replyStep_map)
  show "\<not> truthy (getField rec ''err'')"
    using enrich_no_truthy_err[OF enr] getField_cong[OF s] by simp
  show "map_of rec ''err'' = None"
    if "errorLevel \<le> li \<or> truthy (getField (partialRecord this d) ''err'')"
  proof (cases "truthy (getField ?obj ''err'')")
    case True
    from enrich_truthy[OF enr True] s show ?thesis by auto
  next
    case False
    with that err have "errorLevel \<le> li" by simp
    from enrich_synthesized[OF enr this False] s show ?thesis by simp
  qed
  show "map_of rec ''err'' = map_of (partialRecord this d) ''err''"
    if "li < errorLevel" "\<not> truthy (getField (partialRecord this d) ''err'')"
    using enrich_err_kept[OF enr that(1)] that(2) err s merr by simp
qed

text \<open>
  From any other event no record is built: the call delivers nothing and leaves the logger
  as it was.
\<close>

lemma write_not_enrichable:
  assumes "\<not> enrichable this d"
  shows "deliveries (effectsOf (Logger_write e cur this li d r)) = [] \<and>
         loggerAfter (Logger_write e cur this li d r) = this"
proof (cases "isObject d")
  case False
  from write_not_object[OF False] show ?thesis
    by (simp add: effectsOf_def loggerAfter_def deliveries_def)
next
  case obj: True
  show ?thesis
  proof (cases "cur \<le> li \<or> isTransient this")
    case False
    then have "li < cur" "\<not> isTransient this" by auto
    from write_dropped[OF obj this] show ?thesis
      by (simp add: effectsOf_def loggerAfter_def replyStep_deliveries)
  next
    case adm: True
    from assms obj have "\<not> (\<exists>rec. normalizedRecord e this li d r = Inr rec)"
      by (simp add: enrichable_def normalizedRecord_usable)
    then obtain x where "normalizedRecord e this li d r = Inl x"
      by (cases "normalizedRecord e this li d r") auto
    from write_rejected[OF obj adm this] show ?thesis
      by (simp add: effectsOf_def loggerAfter_def replyStep_deliveries)
  qed
qed

text \<open>The fields lines 278 to 303 set, by the error value they work on.\<close>

lemma enrich_worked:
  assumes "enrich e li obj = Inr rec"
  shows "case workedError e li obj of
           None \<Rightarrow>
             map_of rec ''err'' = map_of obj ''err'' \<and>
             map_of rec ''fullStack'' = map_of obj ''fullStack'' \<and>
             map_of rec ''shortStack'' = map_of obj ''shortStack'' \<and>
             map_of rec ''msg'' = map_of obj ''msg''
         | Some err \<Rightarrow>
             map_of rec ''err'' = None \<and>
             (\<exists>stack. errStack e err = Inr stack \<and>
                map_of rec ''fullStack'' = Some (stackLines (drop 1 (split newline stack))) \<and>
                map_of rec ''shortStack'' =
                  Some (stackLines (filter hasNodeModules (drop 1 (split newline stack))))) \<and>
             map_of rec ''msg'' =
               (if truthy (getField obj ''msg'') then map_of obj ''msg''
                else Some (getProp err ''message''))"
  using assms
  by (auto simp: enrich_def workedError_def Let_def getField_update update_conv' delete_conv'
      split: sum.splits if_splits)

lemma workedError_cong:
  "getField a ''err'' = getField b ''err'' \<Longrightarrow> workedError e li a = workedError e li b"
  by (simp add: workedError_def)

lemma normalizedRecord_worked:
  assumes "normalizedRecord e this li d r = Inr rec"
  shows "case workedError e li (partialRecord this d) of
           None \<Rightarrow>
             map_of rec ''err'' = map_of (partialRecord this d) ''err'' \<and>
             map_of rec ''fullStack'' = map_of (partialRecord this d) ''fullStack'' \<and>
             map_of rec ''shortStack'' = map_of (partialRecord this d) ''shortStack'' \<and>
             map_of rec ''msg'' = map_of (partialRecord this d) ''msg''
         | Some err \<Rightarrow>
             map_of rec ''err'' = None \<and>
             (\<exists>stack. errStack e err = Inr stack \<and>
                map_of rec ''fullStack'' = Some (stackLines (drop 1 (split newline stack))) \<and>
                map_of rec ''shortStack'' =
                  Some (stackLines (filter hasNodeModules (drop 1 (split newline stack))))) \<and>
             map_of rec ''msg'' =
               (if truthy (getField (partialRecord this d) ''msg'')
                then map_of (partialRecord this d) ''msg''
                else Some (getProp err ''message''))"
proof -
  let ?p = "partialRecord this d"
  let ?obj = "fst (replyStep e r ?p)"
  from normalizedRecord_enrich[OF assms] obtain enr
    where enr: "enrich e li ?obj = Inr enr"
      and same: "\<And>k. k \<noteq> ''req'' \<Longrightarrow> map_of rec k = map_of enr k"
    by blast
  have w: "workedError e li ?obj = workedError e li ?p"
    by (rule workedError_cong) (simp add: replyStep_field)
  from enrich_worked[OF enr] show ?thesis
    unfolding w
    by (cases "workedError e li ?p") (simp_all add: same replyStep_map replyStep_field)
qed

lemma normalizedRecord_errorId:
  assumes "normalizedRecord e this li d r = Inr rec"
  shows "map_of rec ''errorId'' =
           (case r of
              None \<Rightarrow> map_of (partialRecord this d) ''errorId''
            | Some w \<Rightarrow> Some (errorIdFor e (partialRecord this d)))"
proof -
  from normalizedRecord_enrich[OF assms] obtain enr
    where enr: "enrich e li (fst (replyStep e r (partialRecord this d))) = Inr enr"
      and same: "\<And>k. k \<noteq> ''req'' \<Longrightarrow> map_of rec k = map_of enr k"
    by blast
  have "map_of rec ''errorId'' = map_of (fst (replyStep e r (partialRecord this d))) ''errorId''"
    by (simp add: same enrich_other[OF enr])
  then show ?thesis
    by (cases r) (simp_all add: replyStep_None replyStep_Some update_conv')
qed

lemma normalizedRecord_req:
  assumes "normalizedRecord e this li d r = Inr rec"
  shows "map_of rec ''req'' =
           (if truthy (getField (ownEntries d) ''req'')
            then Some (parseReq (getField (ownEntries d) ''req''))
            else map_of (presets this) ''req'')"
proof -
  let ?obj = "fst (replyStep e r (partialRecord this d))"
  have "map_of enr ''req'' = map_of (presets this) ''req''" if "enrich e li ?obj = Inr enr" for enr
    by (simp add: enrich_other[OF that] replyStep_map partialRecord_map)
  with assms show ?thesis
    by (auto simp: normalizedRecord_def Let_def update_conv' split: sum.splits if_splits)
qed

text \<open>
  C2, as stated: at or above the threshold, a call on a logger that is not transient makes
  exactly one single-record delivery, of a record with no \<^verbatim>\<open>err\<close> field. Line 282 removes
  \<^verbatim>\<open>err\<close> only when its value is truthy, and below level \<^verbatim>\<open>error\<close> no error is put in
  the place of a falsy one: with the threshold at \<^verbatim>\<open>info\<close>, an \<^verbatim>\<open>info\<close> call whose event
  has \<^verbatim>\<open>err: null\<close> (or \<^verbatim>\<open>err: undefined\<close>) delivers a record that still has the key.
  An event that is not a record-like object is not delivered at all. And where the error
  value of the record is a string, here the preset \<^verbatim>\<open>err: "oops"\<close> on an event that has no
  \<^verbatim>\<open>err\<close> of its own, the assignment of line 291 throws: the call rejects and delivers
  nothing.
\<close>

theorem threshold_filtering_counterexample:
  "\<not> isTransient plainLogger \<and> logCollector plainLogger = None \<and>
   effectsOf (Logger_write env0 1 plainLogger 1 nullErrEvent None) =
     [LogSingle nullErrRecord ''svc-test''] \<and>
   map_of nullErrRecord ''err'' = Some JNull \<and>
   effectsOf (Logger_write env0 1 plainLogger 1 undefinedErrEvent None) =
     [LogSingle undefinedErrRecord ''svc-test''] \<and>
   map_of undefinedErrRecord ''err'' = Some JUndefined \<and>
   deliveries (effectsOf (Logger_write env0 1 plainLogger 1 (JStr ''oops'') None)) = [] \<and>
   \<not> isTransient oopsLogger \<and> logCollector oopsLogger = None \<and>
   deliveries (effectsOf (Logger_write env0 1 oopsLogger 1 plainEvent None)) = [] \<and>
   settledAs (Logger_write env0 1 oopsLogger 1 plainEvent None) = Rejected TypeError"
  by (simp add: write_defs effectsOf_def settledAs_def deliveries_def env0_def plainLogger_def
      oopsLogger_def plainEvent_def nullErrEvent_def nullErrRecord_def undefinedErrEvent_def
      undefinedErrRecord_def)

text \<open>
  C2, amended. On a logger that is not transient:
  \<^item> below the threshold a call makes no delivery, leaves the logger as it was and
    resolves with no value (whatever the event);
  \<^item> at or above the threshold, take a call whose event is a record-like object and in
    which the error value of the partial record (the \<^verbatim>\<open>err\<close> of the event or, when the
    event has no such key, the one of the presets) is falsy or is an object, an \<^verbatim>\<open>Error\<close>
    or any other, whose stack is absent, falsy or a string. It makes exactly one delivery,
    a single-record one under the logger's tag. The record is the presets merged with the
    event fields, apart from the keys \<^verbatim>\<open>write\<close> sets:
    \<^item> \<^verbatim>\<open>level\<close> is the level name;
    \<^item> \<^verbatim>\<open>errorId\<close> is the one of the reply when there is a response wrapper, and as merged
      otherwise;
    \<^item> \<^verbatim>\<open>req\<close> is the projection of the event's request when that is truthy, and the one
      of the presets otherwise;
    \<^item> when there is an error value to work on (a truthy \<^verbatim>\<open>err\<close>, or a new \<^verbatim>\<open>Error\<close> at level
      \<^verbatim>\<open>error\<close> and above), the \<^verbatim>\<open>err\<close> key is absent, \<^verbatim>\<open>fullStack\<close> holds the lines of its
      stack without the first, \<^verbatim>\<open>shortStack\<close> those of them that do not contain
      \<^verbatim>\<open>/node_modules/\<close>, and \<^verbatim>\<open>msg\<close> is the merged one when that is truthy and the
      message of the error otherwise;
    \<^item> when there is none (a falsy \<^verbatim>\<open>err\<close> below level \<^verbatim>\<open>error\<close>), \<^verbatim>\<open>err\<close>, \<^verbatim>\<open>fullStack\<close>,
      \<^verbatim>\<open>shortStack\<close> and \<^verbatim>\<open>msg\<close> are as merged, so that a falsy \<^verbatim>\<open>err\<close> stays in the
      record.

    In no case is the \<^verbatim>\<open>err\<close> of the record truthy.
\<close>

theorem threshold_filtering:
  assumes "\<not> isTransient this" and "logCollector this = None"
  shows "(levelIndex < cur \<longrightarrow>
            deliveries (effectsOf (Logger_write e cur this levelIndex logData response)) = [] \<and>
            settledAs (Logger_write e cur this levelIndex logData response) = Resolved JUndefined \<and>
            loggerAfter (Logger_write e cur this levelIndex logData response) = this) \<and>
         (cur \<le> levelIndex \<and> enrichable this logData \<longrightarrow>
            (\<exists>rec. deliveries (effectsOf (Logger_write e cur this levelIndex logData response)) =
                     [LogSingle rec (tag this)] \<and>
                   (\<forall>k. k \<notin> {''level'', ''err'', ''fullStack'', ''shortStack'', ''msg'',
                               ''errorId'', ''req''} \<longrightarrow>
                        map_of rec k = (map_of (presets this) ++ map_of (ownEntries logData)) k) \<and>
                   getField rec ''level'' = levelAt levelIndex \<and>
                   map_of rec ''errorId'' =
                     (case response of
                        None \<Rightarrow> map_of (partialRecord this logData) ''errorId''
                      | Some w \<Rightarrow> Some (errorIdFor e (partialRecord this logData))) \<and>
                   map_of rec ''req'' =
                     (if truthy (getField (ownEntries logData) ''req'')
                      then Some (parseReq (getField (ownEntries logData) ''req''))
                      else map_of (presets this) ''req'') \<and>
                   (case workedError e levelIndex (partialRecord this logData) of
                      None \<Rightarrow>
                        map_of rec ''err'' = map_of (partialRecord this logData) ''err'' \<and>
                        map_of rec ''fullStack'' = map_of (partialRecord this logData) ''fullStack'' \<and>
                        map_of rec ''shortStack'' = map_of (partialRecord this logData) ''shortStack'' \<and>
                        map_of rec ''msg'' = map_of (partialRecord this logData) ''msg''
                    | Some err \<Rightarrow>
                        map_of rec ''err'' = None \<and>
                        (\<exists>stack. errStack e err = Inr stack \<and>
                           map_of rec ''fullStack'' =
                             Some (stackLines (drop 1 (split newline stack))) \<and>
                           map_of rec ''shortStack'' =
                             Some (stackLines (filter hasNodeModules
                                                 (drop 1 (split newline stack))))) \<and>
                        map_of rec ''msg'' =
                          (if truthy (getField (partialRecord this logData) ''msg'')
                           then map_of (partialRecord this logData) ''msg''
                           else Some (getProp err ''message''))) \<and>
                   \<not> truthy (getField rec ''err'') \<and>
                   (errorLevel \<le> levelIndex \<or>
                    truthy (getField (partialRecord this logData) ''err'') \<longrightarrow>
                      map_of rec ''err'' = None) \<and>
                   (levelIndex < errorLevel \<and>
                    \<not> truthy (getField (partialRecord this logData) ''err'') \<longrightarrow>
                      map_of rec ''err'' = map_of (partialRecord this logData) ''err'')))"
proof -
  let ?W = "Logger_write e cur this levelIndex logData response"
  let ?this' = "this\<lparr> presets := presetsAfter e this logData \<rparr>"
  have low: "deliveries (effectsOf ?W) = [] \<and> settledAs ?W = Resolved JUndefined \<and>
             loggerAfter ?W = this" if "levelIndex < cur"
  proof (cases "isObject logData")
    case True
    from write_dropped[OF True that assms(1)] show ?thesis
      by (simp add: effectsOf_def settledAs_def loggerAfter_def replyStep_deliveries)
  next
    case False
    from write_not_object[OF False] show ?thesis
      by (simp add: effectsOf_def settledAs_def loggerAfter_def deliveries_def)
  qed
  have high: "\<exists>rec. deliveries (effectsOf ?W) = [LogSingle rec (tag this)] \<and>
                   (\<forall>k. k \<notin> {''level'', ''err'', ''fullStack'', ''shortStack'', ''msg'',
                               ''errorId'', ''req''} \<longrightarrow>
                        map_of rec k = (map_of (presets this) ++ map_of (ownEntries logData)) k) \<and>
                   getField rec ''level'' = levelAt levelIndex \<and>
                   map_of rec ''errorId'' =
                     (case response of
                        None \<Rightarrow> map_of (partialRecord this logData) ''errorId''
                      | Some w \<Rightarrow> Some (errorIdFor e (partialRecord this logData))) \<and>
                   map_of rec ''req'' =
                     (if truthy (getField (ownEntries logData) ''req'')
                      then Some (parseReq (getField (ownEntries logData) ''req''))
                      else map_of (presets this) ''req'') \<and>
                   (case workedError e levelIndex (partialRecord this logData) of
                      None \<Rightarrow>
                        map_of rec ''err'' = map_of (partialRecord this logData) ''err'' \<and>
                        map_of rec ''fullStack'' = map_of (partialRecord this logData) ''fullStack'' \<and>
                        map_of rec ''shortStack'' = map_of (partialRecord this logData) ''shortStack'' \<and>
                        map_of rec ''msg'' = map_of (partialRecord this logData) ''msg''
                    | Some err \<Rightarrow>
                        map_of rec ''err'' = None \<and>
                        (\<exists>stack. errStack e err = Inr stack \<and>
                           map_of rec ''fullStack'' =
                             Some (stackLines (drop 1 (split newline stack))) \<and>
                           map_of rec ''shortStack'' =
                             Some (stackLines (filter hasNodeModules
                                                 (drop 1 (split newline stack))))) \<and>
                        map_of rec ''msg'' =
                          (if truthy (getField (partialRecord this logData) ''msg'')
                           then map_of (partialRecord this logData) ''msg''
                           else Some (getProp err ''message''))) \<and>
                   \<not> truthy (getField rec ''err'') \<and>
                   (errorLevel \<le> levelIndex \<or>
                    truthy (getField (partialRecord this logData) ''err'') \<longrightarrow>
                      map_of rec ''err'' = None) \<and>
                   (levelIndex < errorLevel \<and>
                    \<not> truthy (getField (partialRecord this logData) ''err'') \<longrightarrow>
                      map_of rec ''err'' = map_of (partialRecord this logData) ''err'')"
    if "cur \<le> levelIndex" "enrichable this logData"
  proof -
    from that(2) have obj: "isObject logData" by (simp add: enrichable_def)
    from enrichable_normalized[OF that(2)] obtain rec
      where nr: "normalizedRecord e this levelIndex logData response = Inr rec" by blast
    from that(1) have adm: "cur \<le> levelIndex \<or> isTransient this" by simp
    have R: "route e cur ?this' levelIndex rec =
               (?this', [LogSingle rec (tag this)], logSingleResult e)"
      using assms(2) route_single[of ?this' e cur levelIndex rec] by simp
    have d: "deliveries (effectsOf ?W) = [LogSingle rec (tag this)]"
      by (simp add: write_admitted[OF obj adm nr] effectsOf_def R deliveries_append
          replyStep_deliveries) (simp add: deliveries_def)
    have k: "map_of rec k = (map_of (presets this) ++ map_of (ownEntries logData)) k"
      if "k \<notin> {''level'', ''err'', ''fullStack'', ''shortStack'', ''msg'', ''errorId'', ''req''}"
      for k
      using normalizedRecord_other[OF nr that] that
      by (simp add: partialRecord_map map_add_def split: option.splits)
    from normalizedRecord_enrich[OF nr] obtain enr
      where enr: "enrich e levelIndex (fst (replyStep e response (partialRecord this logData))) = Inr enr"
        and same: "\<And>k. k \<noteq> ''req'' \<Longrightarrow> map_of rec k = map_of enr k"
      by blast
    have l: "getField rec ''level'' = levelAt levelIndex"
      using enrich_level[OF enr] getField_cong[OF same[of "''level''"]] by simp
    from d k l normalizedRecord_err[OF nr] normalizedRecord_errorId[OF nr]
      normalizedRecord_req[OF nr] normalizedRecord_worked[OF nr]
    show ?thesis by (intro exI[of _ rec] conjI) blast+
  qed
  from low high show ?thesis by blast
qed

theorem threshold_filtering_witness:
  "\<not> isTransient plainLogger \<and> logCollector plainLogger = None \<and> enrichable plainLogger plainEvent \<and>
   deliveries (effectsOf (Logger_write env0 3 plainLogger 1 plainEvent None)) = [] \<and>
   deliveries (effectsOf (Logger_write env0 1 plainLogger 1 plainEvent None)) =
     [LogSingle infoRecord ''svc-test''] \<and>
   deliveries (effectsOf (Logger_write env0 3 plainLogger 3 plainEvent None)) =
     [LogSingle plainRecord ''svc-test''] \<and>
   map_of plainRecord ''err'' = None \<and>
   enrichable plainLogger homemadeEvent \<and>
   deliveries (effectsOf (Logger_write env0 3 plainLogger 3 homemadeEvent None)) =
     [LogSingle homemadeRecord ''svc-test''] \<and>
   map_of homemadeRecord ''err'' = None"
proof -
  have a: "\<not> isTransient plainLogger" "logCollector plainLogger = None"
    by (simp_all add: plainLogger_def create_def Let_def)
  have t: "enrichable plainLogger plainEvent" "enrichable plainLogger homemadeEvent"
    by (simp_all add: enrichable_def errUsable_def write_defs plainLogger_def plainEvent_def
        homemadeEvent_def)
  have w1: "Logger_write env0 1 plainLogger 1 plainEvent None =
              (plainLogger, [LogSingle infoRecord ''svc-test''], Resolved JUndefined)"
    by (simp add: write_defs env0_def plainLogger_def plainEvent_def infoRecord_def)
  have w3: "Logger_write env0 3 plainLogger 3 plainEvent None =
              (plainLogger, [LogSingle plainRecord ''svc-test''], Resolved JUndefined)"
    by (simp add: write_defs env0_def plainLogger_def plainEvent_def plainRecord_def)
  have w4: "Logger_write env0 3 plainLogger 3 homemadeEvent None =
              (plainLogger, [LogSingle homemadeRecord ''svc-test''], Resolved JUndefined)"
    by (simp add: write_defs env0_def plainLogger_def homemadeEvent_def homemadeRecord_def)
  have d: "deliveries (effectsOf (Logger_write env0 1 plainLogger 1 plainEvent None)) =
             [LogSingle infoRecord ''svc-test'']"
     "deliveries (effectsOf (Logger_write env0 3 plainLogger 3 plainEvent None)) =
             [LogSingle plainRecord ''svc-test'']"
     "deliveries (effectsOf (Logger_write env0 3 plainLogger 3 homemadeEvent None)) =
             [LogSingle homemadeRecord ''svc-test'']"
    by (simp_all add: w1 w3 w4 effectsOf_def deliveries_def)
  have l: "errorLevel \<le> 3" by (simp add: errorLevel_def levels_def)
  from threshold_filtering[OF a, of 1 3 env0 plainEvent None]
  have lowd: "deliveries (effectsOf (Logger_write env0 3 plainLogger 1 plainEvent None)) = []"
    by simp
  from threshold_filtering[OF a, of 3 3 env0 plainEvent None] t(1) d(2) l
  have e1: "map_of plainRecord ''err'' = None" by simp
  from threshold_filtering[OF a, of 3 3 env0 homemadeEvent None] t(2) d(3) l
  have e2: "map_of homemadeRecord ''err'' = None" by simp
  from a t d lowd e1 e2 show ?thesis by simp
qed


section \<open>Timers\<close>

text \<open>A label has an entry in the timer table only once \<^verbatim>\<open>time\<close> has been called with it.\<close>

lemma timers_create: "map_of (timers (create e options)) label = None"
  by (simp add: create_def Let_def)

lemma timers_time_other:
  "label \<noteq> started \<Longrightarrow> map_of (timers (time e this started)) label = map_of (timers this) label"
  by (simp add: time_def update_conv')

lemma timerMsg_truthy: "truthy (JStr (timerMsg m))"
  by (simp add: timerMsg_def)

lemma timeEndData_missing:
  assumes "map_of (timers this) label = None"
  shows "timeEndData e this label x =
     Inr (AList.update ''timerLabel'' (JStr label)
           (AList.update ''msg'' (JStr (timerMsg (getField (case x of None \<Rightarrow> [] | Some d \<Rightarrow> d) ''msg'')))
             (AList.update ''duration'' (JStr (missingLabel e label))
                (case x of None \<Rightarrow> [] | Some d \<Rightarrow> d))))"
  using assms by (simp add: timeEndData_def Let_def)

lemma timeEndData_fields:
  assumes "timeEndData e this label x = Inr ld"
  shows "(\<exists>d. map_of ld ''duration'' = Some (JStr d)) \<and>
         map_of ld ''timerLabel'' = Some (JStr label) \<and>
         map_of ld ''msg'' =
           Some (JStr (timerMsg (getField (case x of None \<Rightarrow> [] | Some d \<Rightarrow> d) ''msg'')))"
  using assms
  by (auto simp: timeEndData_def Let_def update_conv' split: sum.splits option.splits)

lemma enrich_msg_map:
  assumes "enrich e li obj = Inr rec" "truthy (getField obj ''msg'')"
  shows "map_of rec ''msg'' = map_of obj ''msg''"
  using assms
  by (auto simp: enrich_def Let_def getField_update update_conv' delete_conv'
      split: sum.splits if_splits)

lemma timeEnd_record:
  assumes ld: "map_of ld ''duration'' = Some d" "map_of ld ''timerLabel'' = Some l"
      "map_of ld ''msg'' = Some (JStr m)" "m \<noteq> []"
    and h: "rec \<in> set (handedOver this (Logger_write e cur this li (JObj ld) None))"
  shows "map_of rec ''duration'' = Some d \<and> map_of rec ''timerLabel'' = Some l \<and>
         map_of rec ''msg'' = Some (JStr m)"
proof -
  let ?p = "partialRecord this (JObj ld)"
  from handedOver_write[OF h]
  have nr: "normalizedRecord e this li (JObj ld) None = Inr rec" by simp
  have d: "map_of rec ''duration'' = Some d"
    using normalizedRecord_other[OF nr, of "''duration''"] ld(1)
    by (simp add: partialRecord_map)
  have l: "map_of rec ''timerLabel'' = Some l"
    using normalizedRecord_other[OF nr, of "''timerLabel''"] ld(2)
    by (simp add: partialRecord_map)
  from normalizedRecord_enrich[OF nr] obtain enr
    where enr: "enrich e li (fst (replyStep e None ?p)) = Inr enr"
      and same: "\<And>k. k \<noteq> ''req'' \<Longrightarrow> map_of rec k = map_of enr k"
    by blast
  have pm: "map_of ?p ''msg'' = Some (JStr m)"
    using ld(3) by (simp add: partialRecord_map)
  then have gm: "getField (fst (replyStep e None ?p)) ''msg'' = JStr m"
    by (simp add: replyStep_None getField_def)
  with ld(4) have "truthy (getField (fst (replyStep e None ?p)) ''msg'')" by simp
  from enrich_msg_map[OF enr this] pm have "map_of enr ''msg'' = Some (JStr m)"
    by (simp add: replyStep_None)
  then have "map_of rec ''msg'' = Some (JStr m)" by (simp add: same)
  with d l show ?thesis by simp
qed


lemma timerMsg_nonempty: "timerMsg m \<noteq> []"
  by (simp add: timerMsg_def)

text \<open>
  C8. For a label without an entry in the timer table, \<^verbatim>\<open>timeEnd\<close> does not throw: it
  builds an event and returns what \<^verbatim>\<open>write\<close> returns for it at the index of the given
  level. In that event \<^verbatim>\<open>duration\<close> is the string \<^verbatim>\<open>Missing label "<label>" in timeEnd()\<close>
  followed by a newline and the captured stack, \<^verbatim>\<open>timerLabel\<close> is the label, and \<^verbatim>\<open>msg\<close> is
  \<^verbatim>\<open>Timer - \<close> followed by the caller's \<^verbatim>\<open>msg\<close> when the extra data has a (truthy) one and
  \<^verbatim>\<open>Timer\<close> otherwise. Every record the call hands over has these three fields unchanged.
  For any label, an event that \<^verbatim>\<open>timeEnd\<close> builds has a string \<^verbatim>\<open>duration\<close> and the label
  as \<^verbatim>\<open>timerLabel\<close>.
\<close>

theorem timeEnd_missing_label:
  assumes "map_of (timers this) label = None"
  shows "(\<exists>logData.
            timeEndData e this label extraLogDat = Inr logData \<and>
            writeTimeEnd e cur this label level extraLogDat =
              Inr (Logger_write e cur this (indexOf levels level) (JObj logData) None) \<and>
            map_of logData ''duration'' =
              Some (JStr (''Missing label '' @ [dquote] @ label @ [dquote] @ '' in timeEnd()'' @
                          [newline] @
                          (case newErrorStack e of None \<Rightarrow> ''undefined'' | Some st \<Rightarrow> st))) \<and>
            map_of logData ''timerLabel'' = Some (JStr label) \<and>
            map_of logData ''msg'' =
              Some (JStr (if truthy (getField (case extraLogDat of None \<Rightarrow> [] | Some d \<Rightarrow> d)
                                              ''msg'')
                          then ''Timer - '' @
                               toStringJS (getField (case extraLogDat of None \<Rightarrow> [] | Some d \<Rightarrow> d)
                                                    ''msg'')
                          else ''Timer'')) \<and>
            (\<forall>rec \<in> set (handedOver this
                            (Logger_write e cur this (indexOf levels level) (JObj logData) None)).
               map_of rec ''duration'' = map_of logData ''duration'' \<and>
               map_of rec ''timerLabel'' = map_of logData ''timerLabel'' \<and>
               map_of rec ''msg'' = map_of logData ''msg'')) \<and>
         (\<forall>ld. timeEndData e this label' extraLogDat = Inr ld \<longrightarrow>
               (\<exists>d. map_of ld ''duration'' = Some (JStr d)) \<and>
               map_of ld ''timerLabel'' = Some (JStr label'))"
proof -
  let ?x = "case extraLogDat of None \<Rightarrow> [] | Some d \<Rightarrow> d"
  let ?ld = "AList.update ''timerLabel'' (JStr label)
              (AList.update ''msg'' (JStr (timerMsg (getField ?x ''msg'')))
                (AList.update ''duration'' (JStr (missingLabel e label)) ?x))"
  have t: "timeEndData e this label extraLogDat = Inr ?ld"
    by (rule timeEndData_missing[OF assms])
  have w: "writeTimeEnd e cur this label level extraLogDat =
             Inr (Logger_write e cur this (indexOf levels level) (JObj ?ld) None)"
    by (simp add: writeTimeEnd_def Let_def t)
  have ml: "missingLabel e label =
              ''Missing label '' @ [dquote] @ label @ [dquote] @ '' in timeEnd()'' @ [newline] @
              (case newErrorStack e of None \<Rightarrow> ''undefined'' | Some st \<Rightarrow> st)"
    by (simp add: missingLabel_def optStr_def split: option.splits)
  have d: "map_of ?ld ''duration'' = Some (JStr (missingLabel e label))"
    and l: "map_of ?ld ''timerLabel'' = Some (JStr label)"
    and m: "map_of ?ld ''msg'' = Some (JStr (timerMsg (getField ?x ''msg'')))"
    by (simp_all add: update_conv')
  have r: "map_of rec ''duration'' = map_of ?ld ''duration'' \<and>
           map_of rec ''timerLabel'' = map_of ?ld ''timerLabel'' \<and>
           map_of rec ''msg'' = map_of ?ld ''msg''"
    if "rec \<in> set (handedOver this
                      (Logger_write e cur this (indexOf levels level) (JObj ?ld) None))" for rec
    using timeEnd_record[OF d l m timerMsg_nonempty that] d l m by simp
  have first: "timeEndData e this label extraLogDat = Inr ?ld \<and>
            writeTimeEnd e cur this label level extraLogDat =
              Inr (Logger_write e cur this (indexOf levels level) (JObj ?ld) None) \<and>
            map_of ?ld ''duration'' =
              Some (JStr (''Missing label '' @ [dquote] @ label @ [dquote] @ '' in timeEnd()'' @
                          [newline] @
                          (case newErrorStack e of None \<Rightarrow> ''undefined'' | Some st \<Rightarrow> st))) \<and>
            map_of ?ld ''timerLabel'' = Some (JStr label) \<and>
            map_of ?ld ''msg'' =
              Some (JStr (if truthy (getField ?x ''msg'')
                          then ''Timer - '' @ toStringJS (getField ?x ''msg'')
                          else ''Timer'')) \<and>
            (\<forall>rec \<in> set (handedOver this
                            (Logger_write e cur this (indexOf levels level) (JObj ?ld) None)).
               map_of rec ''duration'' = map_of ?ld ''duration'' \<and>
               map_of rec ''timerLabel'' = map_of ?ld ''timerLabel'' \<and>
               map_of rec ''msg'' = map_of ?ld ''msg'')"
    using t w d l m r unfolding ml timerMsg_def by blast
  have second: "(\<exists>d. map_of ld ''duration'' = Some (JStr d)) \<and>
                map_of ld ''timerLabel'' = Some (JStr label')"
    if "timeEndData e this label' extraLogDat = Inr ld" for ld
    using timeEndData_fields[OF that] by simp
  from first second show ?thesis by blast
qed

theorem timeEnd_missing_label_witness:
  "map_of (timers plainLogger) ''missing-label'' = None \<and>
   writeTimeEnd env0 3 plainLogger ''missing-label'' ''error'' None =
     Inr (plainLogger, [LogSingle timerRecord ''svc-test''], Resolved JUndefined) \<and>
   map_of timerRecord ''timerLabel'' = Some (JStr ''missing-label'') \<and>
   map_of timerRecord ''msg'' = Some (JStr ''Timer'')"
proof -
  have h: "map_of (timers plainLogger) ''missing-label'' = None"
    by (simp add: plainLogger_def create_def Let_def)
  have w: "writeTimeEnd env0 3 plainLogger ''missing-label'' ''error'' None =
             Inr (plainLogger, [LogSingle timerRecord ''svc-test''], Resolved JUndefined)"
    by (simp add: writeTimeEnd_def timeEndData_def missingLabel_def timerMsg_def write_defs
        env0_def plainLogger_def timerRecord_def)
  from timeEnd_missing_label[OF h, of env0 None 3 "''error''" "''missing-label''", THEN conjunct1]
  obtain ld
    where ld: "writeTimeEnd env0 3 plainLogger ''missing-label'' ''error'' None =
                 Inr (Logger_write env0 3 plainLogger (indexOf levels ''error'') (JObj ld) None)"
      and l: "map_of ld ''timerLabel'' = Some (JStr ''missing-label'')"
      and m: "map_of ld ''msg'' = Some (JStr ''Timer'')"
      and r: "\<forall>rec \<in> set (handedOver plainLogger
                (Logger_write env0 3 plainLogger (indexOf levels ''error'') (JObj ld) None)).
               map_of rec ''duration'' = map_of ld ''duration'' \<and>
               map_of rec ''timerLabel'' = map_of ld ''timerLabel'' \<and>
               map_of rec ''msg'' = map_of ld ''msg''"
    by (elim exE conjE) (simp add: getField_def)
  from ld w have "Logger_write env0 3 plainLogger (indexOf levels ''error'') (JObj ld) None =
                    (plainLogger, [LogSingle timerRecord ''svc-test''], Resolved JUndefined)"
    by simp
  then have "timerRecord \<in> set (handedOver plainLogger
                (Logger_write env0 3 plainLogger (indexOf levels ''error'') (JObj ld) None))"
    by (simp add: handedOver_same delivered_def)
  with r l m have "map_of timerRecord ''timerLabel'' = Some (JStr ''missing-label'')"
    "map_of timerRecord ''msg'' = Some (JStr ''Timer'')"
    by auto
  with h w show ?thesis by simp
qed


section \<open>The transient logger\<close>

lemma errorLevel_3: "errorLevel = 3"
  by (simp add: errorLevel_def levels_def)

lemma level_indices:
  "indexOf levels ''trace'' = 0" "indexOf levels ''info'' = 1" "indexOf levels ''warn'' = 2"
  "indexOf levels ''error'' = 3" "indexOf levels ''fatal'' = 4" "indexOf levels ''security'' = 5"
  by (simp_all add: levels_def)

lemma partialRecord_presets:
  "presets this' = presets this \<Longrightarrow> partialRecord this' d = partialRecord this d"
  by (simp add: partialRecord_def)

lemma deliveries_single: "deliveries [LogSingle r t] = [LogSingle r t]"
  and deliveries_batch: "deliveries [LogBatch rs t] = [LogBatch rs t]"
  and deliveries_Nil: "deliveries [] = []"
  by (simp_all add: deliveries_def)

text \<open>
  What a call leaves of the logger besides the buffer and the trigger: the mode and the
  tag as they were; the presets as they were, or with the stack put into their error.
\<close>

lemma route_frame:
  "isTransient (loggerAfter (route e cur this li rec)) = isTransient this \<and>
   tag (loggerAfter (route e cur this li rec)) = tag this \<and>
   presets (loggerAfter (route e cur this li rec)) = presets this"
  by (simp add: route_def Let_def loggerAfter_def split: option.splits promise.splits)

lemma write_frame:
  "isTransient (loggerAfter (Logger_write e cur this li d w)) = isTransient this \<and>
   tag (loggerAfter (Logger_write e cur this li d w)) = tag this \<and>
   (presets (loggerAfter (Logger_write e cur this li d w)) = presets this \<or>
    presets (loggerAfter (Logger_write e cur this li d w)) = presetsAfter e this d)"
proof (cases "isObject d")
  case False
  from write_not_object[OF False] show ?thesis by (simp add: loggerAfter_def)
next
  case obj: True
  show ?thesis
  proof (cases "cur \<le> li \<or> isTransient this")
    case False
    then have "li < cur" "\<not> isTransient this" by auto
    from write_dropped[OF obj this] show ?thesis by (simp add: loggerAfter_def)
  next
    case adm: True
    show ?thesis
    proof (cases "normalizedRecord e this li d w")
      case (Inl x)
      from write_rejected[OF obj adm Inl] show ?thesis by (simp add: loggerAfter_def)
    next
      case (Inr rec)
      from route_frame[of e cur "this\<lparr> presets := presetsAfter e this d \<rparr>" li rec]
      show ?thesis by (simp add: write_admitted[OF obj adm Inr] loggerAfter_def)
    qed
  qed
qed

text \<open>
  A preset \<^verbatim>\<open>Error\<close> without a stack has the captured one after the first call that works
  on it.
\<close>

lemma preset_error_gets_stack:
  "getField (presets stacklessLogger) ''err'' = JError ''preset'' None \<and>
   getField (presets (loggerAfter (Logger_write env0 3 stacklessLogger 3 plainEvent None))) ''err'' =
     JError ''preset'' (Some (freshStack env0))"
  by (simp add: write_defs loggerAfter_def env0_def stacklessLogger_def plainEvent_def)

text \<open>The stack put into the error of the presets leaves it usable, as it was.\<close>

lemma errUsable_withStack: "\<not> isPrimitive v \<Longrightarrow> errUsable (withStack v s)"
  by (cases v) (simp_all add: errUsable_def getField_update)

lemma enrichable_presets:
  "presets this' = presets this \<Longrightarrow> enrichable this' d = enrichable this d"
  by (simp add: enrichable_def partialRecord_presets[of this' this])

lemma enrichable_presetsAfter:
  assumes "presets this' = presetsAfter e this d"
  shows "enrichable this' d' = enrichable this d'"
proof -
  let ?v = "getField (presets this) ''err''"
  have g: "getField (partialRecord L d') ''err'' =
             (case map_of (AList.delete ''req'' (ownEntries d')) ''err'' of
                Some x \<Rightarrow> x
              | None \<Rightarrow> getField (presets L) ''err'')" for L
    by (simp add: partialRecord_def Let_def getField_merge)
  show ?thesis
  proof (cases "presetsAfter e this d = presets this")
    case True
    with assms have "presets this' = presets this" by simp
    then show ?thesis by (rule enrichable_presets)
  next
    case False
    then have c: "truthy ?v" "\<not> isPrimitive ?v" "\<not> truthy (getProp ?v ''stack'')"
      and p: "presetsAfter e this d =
                AList.update ''err'' (withStack ?v (freshStack e)) (presets this)"
      by (auto simp: presetsAfter_def Let_def split: if_splits)
    have "errUsable ?v" using c by (simp add: errUsable_def)
    moreover have "errUsable (getField (presets this') ''err'')"
      by (simp add: assms p getField_update errUsable_withStack[OF c(2)])
    ultimately show ?thesis by (simp add: enrichable_def g split: option.splits)
  qed
qed

lemma enrichable_after:
  "enrichable (loggerAfter (Logger_write e cur this li d w)) d' = enrichable this d'"
proof -
  from write_frame[of e cur this li d w]
  consider "presets (loggerAfter (Logger_write e cur this li d w)) = presets this"
    | "presets (loggerAfter (Logger_write e cur this li d w)) = presetsAfter e this d"
    by blast
  then show ?thesis
  proof cases
    case 1
    then show ?thesis by (rule enrichable_presets)
  next
    case 2
    then show ?thesis by (rule enrichable_presetsAfter)
  qed
qed

text \<open>A transient logger that has not triggered, below the threshold: the record is buffered.\<close>

lemma write_buffers:
  assumes "isTransient this" "logCollector this = Some c" "\<not> isTransientTriggered this"
    and "li < cur" and "normalizedRecord e this li d w = Inr rec" and "isObject d"
  shows "logCollector (loggerAfter (Logger_write e cur this li d w)) = Some (c @ [rec])"
    and "\<not> isTransientTriggered (loggerAfter (Logger_write e cur this li d w))"
    and "deliveries (effectsOf (Logger_write e cur this li d w)) = []"
    and "settledAs (Logger_write e cur this li d w) = Resolved JUndefined"
proof -
  let ?this' = "this\<lparr> presets := presetsAfter e this d \<rparr>"
  from assms(1) have adm: "cur \<le> li \<or> isTransient this" by simp
  note W = write_admitted[OF assms(6) adm assms(5)]
  have R: "route e cur ?this' li rec =
             (?this'\<lparr> logCollector := Some (c @ [rec]) \<rparr>, [], Resolved JUndefined)"
    using route_buffer[of ?this' c li cur e rec] assms(2,3,4) by simp
  show "logCollector (loggerAfter (Logger_write e cur this li d w)) = Some (c @ [rec])"
    by (simp add: W R loggerAfter_def)
  show "\<not> isTransientTriggered (loggerAfter (Logger_write e cur this li d w))"
    by (simp add: W R loggerAfter_def assms(3))
  show "deliveries (effectsOf (Logger_write e cur this li d w)) = []"
    by (simp add: W R effectsOf_def deliveries_append replyStep_deliveries deliveries_Nil)
  show "settledAs (Logger_write e cur this li d w) = Resolved JUndefined"
    by (simp add: W R settledAs_def)
qed

text \<open>
  At or above the threshold: the buffer with the record is delivered as one batch, and
  the buffer is dropped when that delivery has resolved. When it rejects, line 315 is not
  reached and the buffer stays.
\<close>

lemma write_flushes:
  assumes "isTransient this" "logCollector this = Some c" "\<not> isTransientTriggered this"
    and "cur \<le> li" and "normalizedRecord e this li d w = Inr rec" and "isObject d"
  shows "deliveries (effectsOf (Logger_write e cur this li d w)) = [LogBatch (c @ [rec]) (tag this)]"
    and "isTransientTriggered (loggerAfter (Logger_write e cur this li d w))"
    and "logBatchResult e = Resolved v \<Longrightarrow>
           logCollector (loggerAfter (Logger_write e cur this li d w)) = None"
    and "logBatchResult e = Rejected x \<Longrightarrow>
           logCollector (loggerAfter (Logger_write e cur this li d w)) = Some (c @ [rec]) \<and>
           settledAs (Logger_write e cur this li d w) = Rejected x"
proof -
  let ?this' = "this\<lparr> presets := presetsAfter e this d \<rparr>"
  from assms(1) have adm: "cur \<le> li \<or> isTransient this" by simp
  note W = write_admitted[OF assms(6) adm assms(5)]
  have R: "route e cur ?this' li rec =
     (?this'\<lparr> logCollector :=
              (case logBatchResult e of Resolved v \<Rightarrow> None | Rejected x \<Rightarrow> Some (c @ [rec])),
            isTransientTriggered := True \<rparr>,
      [LogBatch (c @ [rec]) (tag this)],
      (case logBatchResult e of Resolved v \<Rightarrow> Resolved JUndefined | Rejected x \<Rightarrow> Rejected x))"
    using route_flush[of ?this' c cur li e rec] assms(2,3,4) by simp
  show "deliveries (effectsOf (Logger_write e cur this li d w)) = [LogBatch (c @ [rec]) (tag this)]"
    by (simp add: W R effectsOf_def deliveries_append replyStep_deliveries deliveries_batch)
  show "isTransientTriggered (loggerAfter (Logger_write e cur this li d w))"
    by (simp add: W R loggerAfter_def)
  show "logCollector (loggerAfter (Logger_write e cur this li d w)) = None"
    if "logBatchResult e = Resolved v"
    by (simp add: W R loggerAfter_def that)
  show "logCollector (loggerAfter (Logger_write e cur this li d w)) = Some (c @ [rec]) \<and>
        settledAs (Logger_write e cur this li d w) = Rejected x"
    if "logBatchResult e = Rejected x"
    by (simp add: W R loggerAfter_def settledAs_def that)
qed

text \<open>
  Once triggered, a call leaves the trigger and the buffer as they are and delivers
  nothing but single records.
\<close>

lemma write_triggered_any:
  assumes "isTransientTriggered this"
  shows "isTransientTriggered (loggerAfter (Logger_write e cur this li d w)) \<and>
         logCollector (loggerAfter (Logger_write e cur this li d w)) = logCollector this \<and>
         (\<forall>x \<in> set (deliveries (effectsOf (Logger_write e cur this li d w))).
            \<exists>r. x = LogSingle r (tag this))"
proof (cases "isObject d")
  case False
  from write_not_object[OF False] assms show ?thesis
    by (simp add: loggerAfter_def effectsOf_def deliveries_def)
next
  case obj: True
  show ?thesis
  proof (cases "cur \<le> li \<or> isTransient this")
    case False
    then have "li < cur" "\<not> isTransient this" by auto
    from write_dropped[OF obj this] assms show ?thesis
      by (simp add: loggerAfter_def effectsOf_def replyStep_deliveries)
  next
    case adm: True
    show ?thesis
    proof (cases "normalizedRecord e this li d w")
      case (Inl x)
      from write_rejected[OF obj adm Inl] assms show ?thesis
        by (simp add: loggerAfter_def effectsOf_def replyStep_deliveries)
    next
      case (Inr rec)
      let ?this' = "this\<lparr> presets := presetsAfter e this d \<rparr>"
      have R: "route e cur ?this' li rec = (?this', [LogSingle rec (tag this)], logSingleResult e)"
        using route_single[of ?this' e cur li rec] assms by simp
      show ?thesis
        by (simp add: write_admitted[OF obj adm Inr] R loggerAfter_def effectsOf_def
            deliveries_append replyStep_deliveries deliveries_single assms)
    qed
  qed
qed

lemma write_triggered:
  assumes "isTransientTriggered this" "isTransient this" "enrichable this d"
  shows "deliveries (effectsOf (Logger_write e cur this li d w)) =
           [LogSingle (case normalizedRecord e this li d w of Inl x \<Rightarrow> [] | Inr rec \<Rightarrow> rec)
              (tag this)]"
proof -
  let ?this' = "this\<lparr> presets := presetsAfter e this d \<rparr>"
  from assms(3) have obj: "isObject d" by (simp add: enrichable_def)
  from assms(2) have adm: "cur \<le> li \<or> isTransient this" by simp
  from enrichable_normalized[OF assms(3)] obtain rec
    where nr: "normalizedRecord e this li d w = Inr rec" by blast
  have R: "route e cur ?this' li rec = (?this', [LogSingle rec (tag this)], logSingleResult e)"
    using route_single[of ?this' e cur li rec] assms(1) by simp
  show ?thesis
    by (simp add: write_admitted[OF obj adm nr] R effectsOf_def deliveries_append
        replyStep_deliveries deliveries_single nr)
qed

lemma writeAll_Cons:
  "writeAll this (c # cs) =
     (fst (writeAll (loggerAfter (writeCall this c)) cs),
      effectsOf (writeCall this c) @ snd (writeAll (loggerAfter (writeCall this c)) cs))"
  by (simp only: writeAll.simps Let_def case_prod_unfold)

lemma writeAll_triggered:
  assumes "isTransientTriggered this" "isTransient this"
  shows "isTransientTriggered (fst (writeAll this cs)) \<and>
         logCollector (fst (writeAll this cs)) = logCollector this \<and>
         (\<forall>x \<in> set (deliveries (snd (writeAll this cs))). \<exists>r. x = LogSingle r (tag this)) \<and>
         ((\<forall>c \<in> set cs. enrichable this (callData c)) \<longrightarrow>
            deliveries (snd (writeAll this cs)) =
              map (\<lambda>r. LogSingle r (tag this)) (recordsBuilt this cs))"
  using assms
proof (induction cs arbitrary: this)
  case Nil
  then show ?case by (simp add: deliveries_def)
next
  case (Cons c cs)
  let ?L = "loggerAfter (writeCall this c)"
  from write_triggered_any[OF Cons.prems(1), of "callEnv c" "callThreshold c" "callLevel c"
      "callData c" "callResponse c"]
  have t: "isTransientTriggered ?L" "logCollector ?L = logCollector this"
    and singles: "\<forall>x \<in> set (deliveries (effectsOf (writeCall this c))).
                    \<exists>r. x = LogSingle r (tag this)"
    by (simp_all add: writeCall_def)
  from write_frame[of "callEnv c" "callThreshold c" this "callLevel c" "callData c"
      "callResponse c"] Cons.prems(2)
  have f: "isTransient ?L" "tag ?L = tag this"
    by (simp_all add: writeCall_def)
  have en: "enrichable ?L x = enrichable this x" for x
    by (simp add: writeCall_def enrichable_after)
  note IH = Cons.IH[OF t(1) f(1)]
  have d: "deliveries (snd (writeAll this (c # cs))) =
             deliveries (effectsOf (writeCall this c)) @ deliveries (snd (writeAll ?L cs))"
    by (simp add: writeAll_Cons deliveries_append del: writeAll.simps)
  have l: "fst (writeAll this (c # cs)) = fst (writeAll ?L cs)"
    by (simp add: writeAll_Cons del: writeAll.simps)
  have one: "deliveries (effectsOf (writeCall this c)) = [LogSingle (recordFor this c) (tag this)]"
    if "enrichable this (callData c)"
    using write_triggered[OF Cons.prems that]
    by (simp add: writeCall_def recordFor_def)
  have a: "isTransientTriggered (fst (writeAll this (c # cs)))"
    and b: "logCollector (fst (writeAll this (c # cs))) = logCollector this"
    unfolding l using IH by (simp_all add: t(2))
  have s: "\<forall>x \<in> set (deliveries (snd (writeAll this (c # cs)))). \<exists>r. x = LogSingle r (tag this)"
    unfolding d using IH singles by (auto simp: f(2))
  have r: "deliveries (snd (writeAll this (c # cs))) =
             map (\<lambda>r. LogSingle r (tag this)) (recordsBuilt this (c # cs))"
    if "\<forall>x \<in> set (c # cs). enrichable this (callData x)"
  proof -
    from that have "\<forall>x \<in> set cs. enrichable ?L (callData x)" by (simp add: en)
    with IH have "deliveries (snd (writeAll ?L cs)) =
                    map (\<lambda>r. LogSingle r (tag this)) (recordsBuilt ?L cs)"
      by (simp add: f(2))
    with that show ?thesis unfolding d by (simp add: one del: writeAll.simps)
  qed
  from a b s r show ?case by blast
qed

text \<open>
  C1, as stated: after the batch delivery the buffer is discarded, whatever the events.
  The buffer is dropped by line 315, which follows the \<^verbatim>\<open>await\<close> of line 314: when the
  batch delivery rejects, the call rejects there and the logger keeps the three records.
  And a call adds a record to the buffer only where it builds one: with an event that is
  not a record-like object, or with an error value that is a string (here the preset
  \<^verbatim>\<open>err: "oops"\<close>), \<^verbatim>\<open>trace\<close> leaves the buffer empty.
\<close>

theorem transient_state_machine_counterexample:
  "isTransient transientLogger \<and> logCollector transientLogger = Some [] \<and>
   logCollector afterTwo = Some [saidRecord ''a'' ''trace'', saidRecord ''b'' ''info''] \<and>
   deliveries (effectsOf (error envDown errorLevel afterTwo (said ''c'') None)) =
     [LogBatch [saidRecord ''a'' ''trace'', saidRecord ''b'' ''info'', saidErrorRecord ''c'']
        ''svc-test''] \<and>
   settledAs (error envDown errorLevel afterTwo (said ''c'') None) =
     Rejected (DeliveryFailure (JStr ''down'')) \<and>
   logCollector (loggerAfter (error envDown errorLevel afterTwo (said ''c'') None)) =
     Some [saidRecord ''a'' ''trace'', saidRecord ''b'' ''info'', saidErrorRecord ''c''] \<and>
   logCollector (loggerAfter (trace env0 errorLevel transientLogger (JStr ''oops'') None)) =
     Some [] \<and>
   isTransient oopsTransient \<and> logCollector oopsTransient = Some [] \<and>
   logCollector (loggerAfter (trace env0 errorLevel oopsTransient (said ''a'') None)) = Some [] \<and>
   settledAs (trace env0 errorLevel oopsTransient (said ''a'') None) = Rejected TypeError"
  by (simp add: afterTwo_def trace_def info_def error_def write_defs loggerAfter_def
      effectsOf_def settledAs_def deliveries_def env0_def envDown_def transientLogger_def
      oopsTransient_def said_def saidRecord_def saidErrorRecord_def)

text \<open>
  C1, amended. Take a transient logger that has buffered and triggered nothing yet, the
  threshold at \<^verbatim>\<open>error\<close>, and four events from which \<^verbatim>\<open>write\<close> builds a record: record-like
  objects in which the error value of the partial record (the \<^verbatim>\<open>err\<close> of the event or,
  when the event has no such key, the one of the presets) is falsy or is an object whose
  stack is absent, falsy or a string. Call \<open>r1\<close> to \<open>r4\<close> the records the four calls build,
  each from the logger as the calls before left it.
  \<^item> \<^verbatim>\<open>trace\<close> and then \<^verbatim>\<open>info\<close> make no delivery; after them the buffer is \<open>[r1, r2]\<close>.
  \<^item> \<^verbatim>\<open>error\<close> then makes exactly one delivery, the batch \<open>[r1, r2, r3]\<close> under the logger's
    tag, and leaves the logger triggered; when the batch delivery resolves, the buffer is
    gone. (What becomes of the buffer when it rejects is not part of the statement.)
  \<^item> \<^verbatim>\<open>warn\<close>, below the threshold, then makes exactly one delivery, of the single record
    \<open>r4\<close>, and leaves the trigger and the buffer as they were.
  \<^item> Whatever calls follow, at whatever level and threshold, the logger stays triggered,
    its buffer stays as it was and every delivery is a single record under the logger's
    tag; when their events are such that \<^verbatim>\<open>write\<close> builds a record there is exactly one
    delivery for each call, in the order of the calls, of the record that call builds.
\<close>

theorem transient_state_machine:
  assumes "isTransient this" and "logCollector this = Some []" and "\<not> isTransientTriggered this"
    and "enrichable this d1" and "enrichable this d2" and "enrichable this d3"
    and "enrichable this d4"
  shows "let first = trace e1 errorLevel this d1 w1;
             second = info e2 errorLevel (loggerAfter first) d2 w2;
             third = error e3 errorLevel (loggerAfter second) d3 w3;
             fourth = warn e4 errorLevel (loggerAfter third) d4 w4
         in \<exists>r1 r2 r3 r4.
              normalizedRecord e1 this 0 d1 w1 = Inr r1 \<and>
              normalizedRecord e2 (loggerAfter first) 1 d2 w2 = Inr r2 \<and>
              normalizedRecord e3 (loggerAfter second) 3 d3 w3 = Inr r3 \<and>
              normalizedRecord e4 (loggerAfter third) 2 d4 w4 = Inr r4 \<and>
              deliveries (effectsOf first) = [] \<and>
              logCollector (loggerAfter first) = Some [r1] \<and>
              deliveries (effectsOf second) = [] \<and>
              logCollector (loggerAfter second) = Some [r1, r2] \<and>
              deliveries (effectsOf third) = [LogBatch [r1, r2, r3] (tag this)] \<and>
              isTransientTriggered (loggerAfter third) \<and>
              ((\<exists>v. logBatchResult e3 = Resolved v) \<longrightarrow>
                 logCollector (loggerAfter third) = None) \<and>
              deliveries (effectsOf fourth) = [LogSingle r4 (tag this)] \<and>
              isTransientTriggered (loggerAfter fourth) \<and>
              logCollector (loggerAfter fourth) = logCollector (loggerAfter third) \<and>
              (\<forall>cs. isTransientTriggered (fst (writeAll (loggerAfter third) cs)) \<and>
                    logCollector (fst (writeAll (loggerAfter third) cs)) =
                      logCollector (loggerAfter third) \<and>
                    (\<forall>x \<in> set (deliveries (snd (writeAll (loggerAfter third) cs))).
                       \<exists>r. x = LogSingle r (tag this)) \<and>
                    ((\<forall>x \<in> set cs. enrichable this (callData x)) \<longrightarrow>
                       deliveries (snd (writeAll (loggerAfter third) cs)) =
                         map (\<lambda>r. LogSingle r (tag this))
                           (recordsBuilt (loggerAfter third) cs)))"
proof -
  define L1 where "L1 = loggerAfter (Logger_write e1 errorLevel this 0 d1 w1)"
  define L2 where "L2 = loggerAfter (Logger_write e2 errorLevel L1 1 d2 w2)"
  define L3 where "L3 = loggerAfter (Logger_write e3 errorLevel L2 3 d3 w3)"
  define L4 where "L4 = loggerAfter (Logger_write e4 errorLevel L3 2 d4 w4)"
  have o: "isObject d1" "isObject d2" "isObject d3"
    using assms(4,5,6) by (simp_all add: enrichable_def)
  have lt: "0 < errorLevel" "1 < errorLevel" "errorLevel \<le> 3"
    by (simp_all add: errorLevel_3)
  text \<open>The first call.\<close>
  from enrichable_normalized[OF assms(4)] obtain r1
    where n1: "normalizedRecord e1 this 0 d1 w1 = Inr r1" by blast
  note B1 = write_buffers[OF assms(1,2,3) lt(1) n1 o(1)]
  have f1: "isTransient L1" "tag L1 = tag this"
    using write_frame[of e1 errorLevel this 0 d1 w1] assms(1) by (simp_all add: L1_def)
  have s1: "logCollector L1 = Some [r1]" "\<not> isTransientTriggered L1"
    using B1(1,2) by (simp_all add: L1_def)
  have en1: "enrichable L1 x = enrichable this x" for x
    by (simp add: L1_def enrichable_after)
  text \<open>The second.\<close>
  from assms(5) have "enrichable L1 d2" by (simp add: en1)
  from enrichable_normalized[OF this] obtain r2
    where n2: "normalizedRecord e2 L1 1 d2 w2 = Inr r2" by blast
  note B2 = write_buffers[OF f1(1) s1 lt(2) n2 o(2)]
  have f2: "isTransient L2" "tag L2 = tag this"
    using write_frame[of e2 errorLevel L1 1 d2 w2] f1 by (simp_all add: L2_def)
  have s2: "logCollector L2 = Some [r1, r2]" "\<not> isTransientTriggered L2"
    using B2(1,2) by (simp_all add: L2_def)
  have en2: "enrichable L2 x = enrichable this x" for x
    by (simp add: L2_def enrichable_after en1)
  text \<open>The third.\<close>
  from assms(6) have "enrichable L2 d3" by (simp add: en2)
  from enrichable_normalized[OF this] obtain r3
    where n3: "normalizedRecord e3 L2 3 d3 w3 = Inr r3" by blast
  note F = write_flushes[OF f2(1) s2 lt(3) n3 o(3)]
  have f3: "isTransient L3" "tag L3 = tag this"
    using write_frame[of e3 errorLevel L2 3 d3 w3] f2 by (simp_all add: L3_def)
  have t3: "isTransientTriggered L3"
    using F(2) by (simp add: L3_def)
  have c: "deliveries (effectsOf (Logger_write e3 errorLevel L2 3 d3 w3)) =
             [LogBatch [r1, r2, r3] (tag this)]"
    using F(1) by (simp add: f2(2))
  have gone: "(\<exists>v. logBatchResult e3 = Resolved v) \<longrightarrow> logCollector L3 = None"
    using F(3) by (auto simp: L3_def)
  have en3: "enrichable L3 x = enrichable this x" for x
    by (simp add: L3_def enrichable_after en2)
  text \<open>The fourth.\<close>
  from assms(7) have e4: "enrichable L3 d4" by (simp add: en3)
  from enrichable_normalized[OF this] obtain r4
    where n4: "normalizedRecord e4 L3 2 d4 w4 = Inr r4" by blast
  have d: "deliveries (effectsOf (Logger_write e4 errorLevel L3 2 d4 w4)) =
             [LogSingle r4 (tag this)]"
    using write_triggered[OF t3 f3(1) e4, of e4 errorLevel 2 w4] by (simp add: n4 f3(2))
  have t4: "isTransientTriggered L4" "logCollector L4 = logCollector L3"
    using write_triggered_any[OF t3, of e4 errorLevel 2 d4 w4] by (simp_all add: L4_def)
  text \<open>The calls that follow.\<close>
  have run: "\<forall>cs. isTransientTriggered (fst (writeAll L3 cs)) \<and>
                logCollector (fst (writeAll L3 cs)) = logCollector L3 \<and>
                (\<forall>x \<in> set (deliveries (snd (writeAll L3 cs))). \<exists>r. x = LogSingle r (tag this)) \<and>
                ((\<forall>x \<in> set cs. enrichable this (callData x)) \<longrightarrow>
                   deliveries (snd (writeAll L3 cs)) =
                     map (\<lambda>r. LogSingle r (tag this)) (recordsBuilt L3 cs))"
  proof
    fix cs
    from writeAll_triggered[OF t3 f3(1), of cs]
    show "isTransientTriggered (fst (writeAll L3 cs)) \<and>
          logCollector (fst (writeAll L3 cs)) = logCollector L3 \<and>
          (\<forall>x \<in> set (deliveries (snd (writeAll L3 cs))). \<exists>r. x = LogSingle r (tag this)) \<and>
          ((\<forall>x \<in> set cs. enrichable this (callData x)) \<longrightarrow>
             deliveries (snd (writeAll L3 cs)) =
               map (\<lambda>r. LogSingle r (tag this)) (recordsBuilt L3 cs))"
      by (simp add: f3(2) en3)
  qed
  have "normalizedRecord e1 this 0 d1 w1 = Inr r1 \<and>
          normalizedRecord e2 L1 1 d2 w2 = Inr r2 \<and>
          normalizedRecord e3 L2 3 d3 w3 = Inr r3 \<and>
          normalizedRecord e4 L3 2 d4 w4 = Inr r4 \<and>
          deliveries (effectsOf (Logger_write e1 errorLevel this 0 d1 w1)) = [] \<and>
          logCollector L1 = Some [r1] \<and>
          deliveries (effectsOf (Logger_write e2 errorLevel L1 1 d2 w2)) = [] \<and>
          logCollector L2 = Some [r1, r2] \<and>
          deliveries (effectsOf (Logger_write e3 errorLevel L2 3 d3 w3)) =
            [LogBatch [r1, r2, r3] (tag this)] \<and>
          isTransientTriggered L3 \<and>
          ((\<exists>v. logBatchResult e3 = Resolved v) \<longrightarrow> logCollector L3 = None) \<and>
          deliveries (effectsOf (Logger_write e4 errorLevel L3 2 d4 w4)) =
            [LogSingle r4 (tag this)] \<and>
          isTransientTriggered L4 \<and>
          logCollector L4 = logCollector L3 \<and>
          (\<forall>cs. isTransientTriggered (fst (writeAll L3 cs)) \<and>
                logCollector (fst (writeAll L3 cs)) = logCollector L3 \<and>
                (\<forall>x \<in> set (deliveries (snd (writeAll L3 cs))). \<exists>r. x = LogSingle r (tag this)) \<and>
                ((\<forall>x \<in> set cs. enrichable this (callData x)) \<longrightarrow>
                   deliveries (snd (writeAll L3 cs)) =
                     map (\<lambda>r. LogSingle r (tag this)) (recordsBuilt L3 cs)))"
    using n1 n2 n3 n4 B1(3) s1(1) B2(3) s2(1) c t3 gone d t4 run
    by - (intro conjI; assumption)
  then have "\<exists>r1 r2 r3 r4.
          normalizedRecord e1 this 0 d1 w1 = Inr r1 \<and>
          normalizedRecord e2 L1 1 d2 w2 = Inr r2 \<and>
          normalizedRecord e3 L2 3 d3 w3 = Inr r3 \<and>
          normalizedRecord e4 L3 2 d4 w4 = Inr r4 \<and>
          deliveries (effectsOf (Logger_write e1 errorLevel this 0 d1 w1)) = [] \<and>
          logCollector L1 = Some [r1] \<and>
          deliveries (effectsOf (Logger_write e2 errorLevel L1 1 d2 w2)) = [] \<and>
          logCollector L2 = Some [r1, r2] \<and>
          deliveries (effectsOf (Logger_write e3 errorLevel L2 3 d3 w3)) =
            [LogBatch [r1, r2, r3] (tag this)] \<and>
          isTransientTriggered L3 \<and>
          ((\<exists>v. logBatchResult e3 = Resolved v) \<longrightarrow> logCollector L3 = None) \<and>
          deliveries (effectsOf (Logger_write e4 errorLevel L3 2 d4 w4)) =
            [LogSingle r4 (tag this)] \<and>
          isTransientTriggered L4 \<and>
          logCollector L4 = logCollector L3 \<and>
          (\<forall>cs. isTransientTriggered (fst (writeAll L3 cs)) \<and>
                logCollector (fst (writeAll L3 cs)) = logCollector L3 \<and>
                (\<forall>x \<in> set (deliveries (snd (writeAll L3 cs))). \<exists>r. x = LogSingle r (tag this)) \<and>
                ((\<forall>x \<in> set cs. enrichable this (callData x)) \<longrightarrow>
                   deliveries (snd (writeAll L3 cs)) =
                     map (\<lambda>r. LogSingle r (tag this)) (recordsBuilt L3 cs)))"
    by - ((rule exI)+, assumption)
  then show ?thesis
    unfolding Let_def trace_def info_def error_def warn_def level_indices
      L1_def[symmetric] L2_def[symmetric] L3_def[symmetric] L4_def[symmetric] .
qed

theorem transient_state_machine_witness:
  "isTransient transientLogger \<and> logCollector transientLogger = Some [] \<and>
   \<not> isTransientTriggered transientLogger \<and> enrichable transientLogger (said ''a'') \<and>
   (let first = trace env0 errorLevel transientLogger (said ''a'') None;
        second = info env0 errorLevel (loggerAfter first) (said ''b'') None;
        third = error env0 errorLevel (loggerAfter second) (said ''c'') None;
        fourth = warn env0 errorLevel (loggerAfter third) (said ''d'') None
    in deliveries (effectsOf first) = [] \<and>
       deliveries (effectsOf second) = [] \<and>
       logCollector (loggerAfter second) =
         Some [saidRecord ''a'' ''trace'', saidRecord ''b'' ''info''] \<and>
       deliveries (effectsOf third) =
         [LogBatch [saidRecord ''a'' ''trace'', saidRecord ''b'' ''info'', saidErrorRecord ''c'']
            ''svc-test''] \<and>
       logCollector (loggerAfter third) = None \<and>
       deliveries (effectsOf fourth) = [LogSingle (saidRecord ''d'' ''warn'') ''svc-test''] \<and>
       deliveries (snd (writeAll (loggerAfter third)
                          [\<lparr> callEnv = env0, callThreshold = 5, callLevel = 0,
                              callData = said ''e'', callResponse = None \<rparr>,
                           \<lparr> callEnv = env0, callThreshold = 0, callLevel = 1,
                              callData = said ''f'', callResponse = None \<rparr>])) =
         [LogSingle (saidRecord ''e'' ''trace'') ''svc-test'',
          LogSingle (saidRecord ''f'' ''info'') ''svc-test''])"
proof -
  define L1 where "L1 = transientLogger\<lparr> logCollector := Some [saidRecord ''a'' ''trace''] \<rparr>"
  define L2 where
    "L2 = transientLogger\<lparr> logCollector := Some [saidRecord ''a'' ''trace'', saidRecord ''b'' ''info''] \<rparr>"
  define L3 where
    "L3 = transientLogger\<lparr> logCollector := None, isTransientTriggered := True \<rparr>"
  have t: "isTransient transientLogger" "logCollector transientLogger = Some []"
      "\<not> isTransientTriggered transientLogger" "tag transientLogger = ''svc-test''"
    by (simp_all add: transientLogger_def create_def Let_def optStr_def env0_def)
  have w: "enrichable transientLogger (said m)" for m
    by (simp add: enrichable_def errUsable_def said_def write_defs transientLogger_def)
  have c1: "trace env0 errorLevel transientLogger (said ''a'') None = (L1, [], Resolved JUndefined)"
    by (simp add: trace_def L1_def write_defs env0_def transientLogger_def said_def saidRecord_def)
  have c2: "info env0 errorLevel L1 (said ''b'') None = (L2, [], Resolved JUndefined)"
    by (simp add: info_def L1_def L2_def write_defs env0_def transientLogger_def said_def
        saidRecord_def)
  have c3: "error env0 errorLevel L2 (said ''c'') None =
              (L3, [LogBatch [saidRecord ''a'' ''trace'', saidRecord ''b'' ''info'',
                              saidErrorRecord ''c''] ''svc-test''], Resolved JUndefined)"
    by (simp add: error_def L2_def L3_def write_defs env0_def transientLogger_def said_def
        saidRecord_def saidErrorRecord_def)
  have c4: "warn env0 errorLevel L3 (said ''d'') None =
              (L3, [LogSingle (saidRecord ''d'' ''warn'') ''svc-test''], Resolved JUndefined)"
    by (simp add: warn_def L3_def write_defs env0_def transientLogger_def said_def saidRecord_def)
  have c5: "writeCall L3 \<lparr> callEnv = env0, callThreshold = 5, callLevel = 0,
                           callData = said ''e'', callResponse = None \<rparr> =
              (L3, [LogSingle (saidRecord ''e'' ''trace'') ''svc-test''], Resolved JUndefined)"
    and c6: "writeCall L3 \<lparr> callEnv = env0, callThreshold = 0, callLevel = 1,
                           callData = said ''f'', callResponse = None \<rparr> =
              (L3, [LogSingle (saidRecord ''f'' ''info'') ''svc-test''], Resolved JUndefined)"
    by (simp_all add: writeCall_def L3_def write_defs env0_def transientLogger_def said_def
        saidRecord_def)
  have b: "recordsBuilt L3
             [\<lparr> callEnv = env0, callThreshold = 5, callLevel = 0,
                 callData = said ''e'', callResponse = None \<rparr>,
              \<lparr> callEnv = env0, callThreshold = 0, callLevel = 1,
                 callData = said ''f'', callResponse = None \<rparr>] =
             [saidRecord ''e'' ''trace'', saidRecord ''f'' ''info'']"
    by (simp add: c5 c6 loggerAfter_def)
       (simp add: recordFor_def normalizedRecord_def L3_def write_defs env0_def
          transientLogger_def said_def saidRecord_def)
  have r: "\<exists>v. logBatchResult env0 = Resolved v" by (simp add: env0_def)
  from transient_state_machine[OF t(1,2,3) w[of "''a''"] w[of "''b''"] w[of "''c''"] w[of "''d''"],
      of env0 None env0 None env0 None env0 None]
  show ?thesis
    unfolding Let_def c1 c2 c3 c4 loggerAfter_def fst_conv
    using t w r b by (simp add: effectsOf_def deliveries_def del: writeAll.simps)
qed


end
